theory Spec2Isabelle
  imports Main "HOL-Library.Word"
begin

unbundle bit_operations_syntax

section \<open>The share builder of go-square (shares/share_builder.go)\<close>

text \<open>
  A shallow embedding of the \<^verbatim>\<open>Builder\<close> type of package \<^verbatim>\<open>shares\<close> and of its
  methods. Go slices share their backing arrays, so the embedding has an explicit memory:
  a method takes the memory and the Builder and returns both as the call leaves them.
  A run-time panic (an index or a slice expression out of range) is the value \<open>None\<close>;
  an \<^verbatim>\<open>error\<close> that the Go method returns is a value of the datatype \<open>error\<close>.
\<close>

subsection \<open>Bytes, constants and collaborators\<close>

type_synonym byte = "8 word"
type_synonym uint8 = "8 word"
type_synonym uint32 = "32 word"

text \<open>
  The constants \<^verbatim>\<open>ShareSize\<close> and \<^verbatim>\<open>namespace.NamespaceSize\<close> are declared in files of
  the repository other than \<^verbatim>\<open>share_builder.go\<close>, and the specification leaves their
  values open. Every function below takes them as a parameter of type \<open>layout\<close>. Both
  are sizes, hence natural numbers.
\<close>

record layout =
  ShareSize :: nat
  NamespaceSize :: nat

text \<open>
  Modelled from the spec: the constant \<^verbatim>\<open>ShareInfoBytes\<close>, declared outside
  \<^verbatim>\<open>share_builder.go\<close>. The table of the binary layout gives the info byte the size 1.
\<close>

definition ShareInfoBytes :: nat where
  "ShareInfoBytes = 1"

text \<open>
  Modelled from the spec: the constant \<^verbatim>\<open>SequenceLenBytes\<close>, declared outside
  \<^verbatim>\<open>share_builder.go\<close>. The sequence length is a fixed-width big-endian unsigned integer
  of 4 bytes; the source writes it from a \<^verbatim>\<open>uint32\<close> with \<^verbatim>\<open>binary.BigEndian.PutUint32\<close>.
\<close>

definition SequenceLenBytes :: nat where
  "SequenceLenBytes = 4"

text \<open>
  Modelled from the spec: the constant \<^verbatim>\<open>CompactShareReservedBytes\<close>, declared outside
  \<^verbatim>\<open>share_builder.go\<close>. The reserved bytes are a fixed-width big-endian unsigned integer
  of 4 bytes; the source builds them from a \<^verbatim>\<open>uint32\<close>.
\<close>

definition CompactShareReservedBytes :: nat where
  "CompactShareReservedBytes = 4"

text \<open>
  Modelled from the spec: the constant \<^verbatim>\<open>MaxShareVersion\<close>, declared outside
  \<^verbatim>\<open>share_builder.go\<close>. Bit 0 of the info byte is the first-share flag and the remaining
  seven bits are the share version, so the encodable versions are 0 to 127.
\<close>

definition MaxShareVersion :: uint8 where
  "MaxShareVersion = 127"

text \<open>
  Modelled from the spec: the type \<^verbatim>\<open>namespace.Namespace\<close> (an external collaborator).
  The builder consumes it only through \<^verbatim>\<open>Bytes()\<close>, \<^verbatim>\<open>IsTx()\<close> and \<^verbatim>\<open>IsPayForBlob()\<close>;
  a namespace is modelled by what these three return.
\<close>

record Namespace =
  Bytes :: "byte list"
  IsTx :: bool
  IsPayForBlob :: bool

text \<open>
  The error kinds. The Go source creates the errors with \<^verbatim>\<open>errors.New\<close>; the constructors
  carry the names the specification gives them:
  \<^item> \<open>NotCompactShare\<close> is \<^verbatim>\<open>"this is not a compact share"\<close>,
  \<^item> \<open>NotFirstShare\<close> is \<^verbatim>\<open>"not the first share"\<close>,
  \<^item> \<open>NilBuilder\<close> is \<^verbatim>\<open>"the builder object is not initialized (is nil)"\<close>,
  \<^item> \<open>InvalidVersion\<close> is the error of \<^verbatim>\<open>NewInfoByte\<close>,
  \<^item> \<open>MalformedReservedBytes\<close> is the error of \<^verbatim>\<open>ParseReservedBytes\<close>,
  \<^item> \<open>ByteIndexOutOfRange\<close> is the error of \<^verbatim>\<open>NewReservedBytes\<close>, for which the
    specification has no name.
\<close>

datatype error =
    InvalidVersion
  | NotCompactShare
  | NotFirstShare
  | NilBuilder
  | MalformedReservedBytes
  | ByteIndexOutOfRange

subsection \<open>Slices and memory\<close>

text \<open>
  A Go slice is a view of a backing array: a pointer to its first element, a length and
  a capacity. Here \<open>ptr\<close> names the array, \<open>off\<close> is the index of the slice's first
  element in it, \<open>len\<close> is the length, and \<open>spare\<close> counts the elements between the
  length and the capacity, so that the capacity is never below the length. The \<^verbatim>\<open>nil\<close>
  slice has length and capacity 0.
\<close>

record slice =
  ptr :: nat
  off :: nat
  len :: nat
  spare :: nat

definition cap :: "slice \<Rightarrow> nat" where
  "cap s = len s + spare s"

definition nilSlice :: slice where
  "nilSlice = \<lparr>ptr = 0, off = 0, len = 0, spare = 0\<rparr>"

text \<open>
  The memory holds the backing arrays, each a function from indices to bytes: what of an
  array a slice may reach is bounded by the slice's own length and capacity, as Go checks
  it. \<open>fresh\<close> is the array that the next allocation returns. When \<^verbatim>\<open>append\<close> has to
  reallocate, Go's runtime chooses the new capacity; \<open>growth\<close> is that choice, given the
  old capacity and the length needed, and the capacity taken is never below the length
  needed.
\<close>

record memory =
  cells :: "nat \<Rightarrow> nat \<Rightarrow> byte"
  fresh :: nat
  growth :: "nat \<Rightarrow> nat \<Rightarrow> nat"

text \<open>The elements of a slice, those within its length.\<close>

definition view :: "memory \<Rightarrow> slice \<Rightarrow> byte list" where
  "view m s = map (\<lambda>i. cells m (ptr s) (off s + i)) [0..<len s]"

text \<open>Writing the bytes \<open>xs\<close> into the array \<open>p\<close> from index \<open>i\<close> on.\<close>

definition store :: "memory \<Rightarrow> nat \<Rightarrow> nat \<Rightarrow> byte list \<Rightarrow> memory" where
  "store m p i xs =
     m\<lparr>cells := (cells m)
          (p := (\<lambda>j. if i \<le> j \<and> j < i + length xs then xs ! (j - i) else cells m p j))\<rparr>"

text \<open>
  \<^verbatim>\<open>make([]byte, 0, n)\<close>: a new array of zero bytes, and the empty slice of capacity \<open>n\<close>
  at its start.
\<close>

definition makeSlice :: "memory \<Rightarrow> nat \<Rightarrow> memory \<times> slice" where
  "makeSlice m n =
     (m\<lparr>cells := (cells m)(fresh m := (\<lambda>j. 0)), fresh := Suc (fresh m)\<rparr>,
      \<lparr>ptr = fresh m, off = 0, len = 0, spare = n\<rparr>)"

text \<open>
  \<^verbatim>\<open>append(s, xs...)\<close>. The bytes to append are read before any is written (Go copies
  them as by \<^verbatim>\<open>memmove\<close>), so they are passed by value. Within the capacity the bytes
  are written in place, into the array that \<open>s\<close> shares with every other slice of it.
  Beyond the capacity a new array is allocated, the elements and the new bytes are copied
  into it and the rest of it is zero.
\<close>

definition appendBytes :: "memory \<Rightarrow> slice \<Rightarrow> byte list \<Rightarrow> memory \<times> slice" where
  "appendBytes m s xs =
     (if length xs \<le> spare s
      then (store m (ptr s) (off s + len s) xs,
            s\<lparr>len := len s + length xs, spare := spare s - length xs\<rparr>)
      else (let needed = len s + length xs;
                newcap = max needed (growth m (cap s) needed);
                elements = view m s @ xs
            in (m\<lparr>cells := (cells m)
                    (fresh m := (\<lambda>j. if j < needed then elements ! j else 0)),
                  fresh := Suc (fresh m)\<rparr>,
                \<lparr>ptr = fresh m, off = 0, len = needed, spare = newcap - needed\<rparr>)))"

text \<open>
  The slice expressions \<^verbatim>\<open>s[:hi]\<close>, \<^verbatim>\<open>s[lo:]\<close> and \<^verbatim>\<open>s[lo:hi]\<close>. Go panics unless
  \<open>0 \<le> lo \<le> hi \<le> cap s\<close>, where a missing \<open>lo\<close> is 0 and a missing \<open>hi\<close> is
  \<open>len s\<close>. The indices of \<^verbatim>\<open>AddData\<close> are of Go's type \<^verbatim>\<open>int\<close> and may be negative.
\<close>

definition sliceTo :: "slice \<Rightarrow> int \<Rightarrow> slice option" where
  "sliceTo s hi =
     (if 0 \<le> hi \<and> hi \<le> int (cap s)
      then Some (s\<lparr>len := nat hi, spare := cap s - nat hi\<rparr>)
      else None)"

definition sliceFrom :: "slice \<Rightarrow> int \<Rightarrow> slice option" where
  "sliceFrom s lo =
     (if 0 \<le> lo \<and> lo \<le> int (len s)
      then Some (s\<lparr>off := off s + nat lo, len := len s - nat lo\<rparr>)
      else None)"

definition sliceRange :: "slice \<Rightarrow> nat \<Rightarrow> nat \<Rightarrow> slice option" where
  "sliceRange s lo hi =
     (if lo \<le> hi \<and> hi \<le> cap s
      then Some \<lparr>ptr = ptr s, off = off s + lo, len = hi - lo, spare = cap s - hi\<rparr>
      else None)"

text \<open>The assignment \<^verbatim>\<open>s[i] = v\<close>; Go panics unless \<open>i\<close> is below the length.\<close>

definition setIndex :: "memory \<Rightarrow> slice \<Rightarrow> nat \<Rightarrow> byte \<Rightarrow> memory option" where
  "setIndex m s i v =
     (if i < len s
      then Some (m\<lparr>cells := (cells m)(ptr s := (cells m (ptr s))(off s + i := v))\<rparr>)
      else None)"

text \<open>The read \<^verbatim>\<open>s[i]\<close>, with the same check.\<close>

definition getIndex :: "memory \<Rightarrow> slice \<Rightarrow> nat \<Rightarrow> byte option" where
  "getIndex m s i = (if i < len s then Some (cells m (ptr s) (off s + i)) else None)"

record Builder =
  namespace :: Namespace
  shareVersion :: uint8
  isFirstShare :: bool
  isCompactShare :: bool
  rawShareData :: slice

subsection \<open>The byte order of encoding/binary\<close>

text \<open>
  \<^verbatim>\<open>binary.BigEndian.PutUint32(b, v)\<close> panics unless \<open>b\<close> has four bytes, and stores the
  most significant byte first; \<^verbatim>\<open>binary.BigEndian.Uint32(b)\<close> reads them back. The source
  applies the first to a buffer that it has just made and never hands out, and the second
  is applied to the bytes that a slice holds: both work on the bytes as values.
\<close>

definition bigEndian32 :: "uint32 \<Rightarrow> byte list" where
  "bigEndian32 v = [ucast (drop_bit 24 v), ucast (drop_bit 16 v), ucast (drop_bit 8 v), ucast v]"

definition PutUint32 :: "byte list \<Rightarrow> uint32 \<Rightarrow> byte list option" where
  "PutUint32 b v = (if length b < 4 then None else Some (bigEndian32 v @ drop 4 b))"

fun Uint32 :: "byte list \<Rightarrow> uint32 option" where
  "Uint32 (b0 # b1 # b2 # b3 # rest) =
     Some (ucast b3 OR push_bit 8 (ucast b2) OR push_bit 16 (ucast b1) OR push_bit 24 (ucast b0))"
| "Uint32 _ = None"

text \<open>
  The loop \<^verbatim>\<open>for i := 0; i < n; i++ { dst[base+i] = src[i] }\<close>, run over the indices
  \<open>[0..<n]\<close>, where \<open>src\<close> is a buffer local to the method. Either index expression
  panics when it is out of range; the bytes written before a panic are lost with it.
\<close>

fun copyInto :: "memory \<Rightarrow> slice \<Rightarrow> nat \<Rightarrow> byte list \<Rightarrow> nat list \<Rightarrow> memory option" where
  "copyInto m dst base src [] = Some m"
| "copyInto m dst base src (i # rest) =
     (if i < length src
      then (case setIndex m dst (base + i) (src ! i) of
              None \<Rightarrow> None
            | Some m' \<Rightarrow> copyInto m' dst base src rest)
      else None)"

subsection \<open>Helpers of the package that are declared in other files\<close>

text \<open>
  Modelled from the spec: the function \<^verbatim>\<open>NewInfoByte\<close>, declared outside
  \<^verbatim>\<open>share_builder.go\<close>. The info byte is one byte whose bit 0 is the first-share flag and
  whose remaining bits are the share version; a version beyond the encodable range is
  refused with \<open>InvalidVersion\<close>.
\<close>

definition NewInfoByte :: "uint8 \<Rightarrow> bool \<Rightarrow> error + byte" where
  "NewInfoByte version isSequenceStart =
     (if version > MaxShareVersion then Inl InvalidVersion
      else (let prefix = push_bit 1 version
            in if isSequenceStart then Inr (prefix + 1) else Inr prefix))"

text \<open>
  Modelled from the spec: the function \<^verbatim>\<open>NewReservedBytes\<close>, declared outside
  \<^verbatim>\<open>share_builder.go\<close>. The reserved bytes are the fixed-width big-endian encoding of a byte
  offset within the current share; an offset that is not within the share (not below
  \<^verbatim>\<open>ShareSize\<close>) has no encoding, and the source of \<^verbatim>\<open>MaybeWriteReservedBytes\<close> hands the
  error on to its caller. The bytes returned are a buffer of their own.
\<close>

definition NewReservedBytes :: "layout \<Rightarrow> uint32 \<Rightarrow> error + byte list" where
  "NewReservedBytes c byteIndex =
     (if int (ShareSize c) \<le> uint byteIndex then Inl ByteIndexOutOfRange
      else Inr (bigEndian32 byteIndex))"

text \<open>
  Modelled from the spec: the function \<^verbatim>\<open>ParseReservedBytes\<close>, declared outside
  \<^verbatim>\<open>share_builder.go\<close>. It decodes the fixed-width big-endian offset, and fails with
  \<open>MalformedReservedBytes\<close> when the region cannot be parsed: when it has not the width
  of the field, or when the value is not an offset within the share. It reads its
  argument and keeps nothing of it, so it is given the bytes that the slice holds.
\<close>

definition ParseReservedBytes :: "layout \<Rightarrow> byte list \<Rightarrow> error + uint32" where
  "ParseReservedBytes c reservedBytes =
     (if length reservedBytes \<noteq> CompactShareReservedBytes then Inl MalformedReservedBytes
      else (case Uint32 reservedBytes of
              None \<Rightarrow> Inl MalformedReservedBytes
            | Some byteIndex \<Rightarrow>
                if int (ShareSize c) \<le> uint byteIndex then Inl MalformedReservedBytes
                else Inr byteIndex))"

text \<open>
  Modelled from the spec: the function \<^verbatim>\<open>zeroPadIfNecessary\<close>, declared outside
  \<^verbatim>\<open>share_builder.go\<close>. It appends zero bytes until the buffer reaches exactly the width and
  returns the padded slice and the number of padding bytes added, 0 if the buffer is
  already full. For a buffer that already exceeds the width the specification promises no
  result; the model has \<open>None\<close> there.
\<close>

definition zeroPadIfNecessary ::
    "memory \<Rightarrow> slice \<Rightarrow> nat \<Rightarrow> (memory \<times> slice \<times> int) option" where
  "zeroPadIfNecessary m share width =
     (if width < len share then None
      else (let (m', padded) = appendBytes m share (replicate (width - len share) 0)
            in Some (m', padded, int width - int (len share))))"

subsection \<open>Construction\<close>

definition isCompactShareNs :: "Namespace \<Rightarrow> bool" where
  "isCompactShareNs ns = (IsTx ns \<or> IsPayForBlob ns)"

text \<open>
  The two \<^verbatim>\<open>prepare\<close> methods allocate the buffer and fill it with \<^verbatim>\<open>append\<close>.
  \<^verbatim>\<open>Bytes()\<close> of the namespace and the placeholders are buffers of their own, appended
  by value. On an error the Builder is dropped, and the array allocated for it with it.
\<close>

definition prepareCompactShare :: "layout \<Rightarrow> memory \<Rightarrow> Builder \<Rightarrow> error + memory \<times> Builder" where
  "prepareCompactShare c m b =
     (let (m, shareData) = makeSlice m (ShareSize c)
      in case NewInfoByte (shareVersion b) (isFirstShare b) of
           Inl err \<Rightarrow> Inl err
         | Inr infoByte \<Rightarrow>
             (let placeholderSequenceLen = replicate SequenceLenBytes 0;
                  placeholderReservedBytes = replicate CompactShareReservedBytes 0;
                  (m, shareData) = appendBytes m shareData (Bytes (namespace b));
                  (m, shareData) = appendBytes m shareData [infoByte];
                  (m, shareData) = (if isFirstShare b
                                    then appendBytes m shareData placeholderSequenceLen
                                    else (m, shareData));
                  (m, shareData) = appendBytes m shareData placeholderReservedBytes
              in Inr (m, b\<lparr>rawShareData := shareData\<rparr>)))"

definition prepareSparseShare :: "layout \<Rightarrow> memory \<Rightarrow> Builder \<Rightarrow> error + memory \<times> Builder" where
  "prepareSparseShare c m b =
     (let (m, shareData) = makeSlice m (ShareSize c)
      in case NewInfoByte (shareVersion b) (isFirstShare b) of
           Inl err \<Rightarrow> Inl err
         | Inr infoByte \<Rightarrow>
             (let placeholderSequenceLen = replicate SequenceLenBytes 0;
                  (m, shareData) = appendBytes m shareData (Bytes (namespace b));
                  (m, shareData) = appendBytes m shareData [infoByte];
                  (m, shareData) = (if isFirstShare b
                                    then appendBytes m shareData placeholderSequenceLen
                                    else (m, shareData))
              in Inr (m, b\<lparr>rawShareData := shareData\<rparr>)))"

text \<open>\<^verbatim>\<open>init\<close> of the source; the name is taken by a constant of the library.\<close>

definition init_builder :: "layout \<Rightarrow> memory \<Rightarrow> Builder \<Rightarrow> error + memory \<times> Builder" where
  "init_builder c m b =
     (if isCompactShare b then prepareCompactShare c m b else prepareSparseShare c m b)"

definition NewBuilder ::
    "layout \<Rightarrow> memory \<Rightarrow> Namespace \<Rightarrow> uint8 \<Rightarrow> bool \<Rightarrow> error + memory \<times> Builder" where
  "NewBuilder c m ns version first =
     init_builder c m
       \<lparr>namespace = ns, shareVersion = version, isFirstShare = first,
        isCompactShare = isCompactShareNs ns, rawShareData = nilSlice\<rparr>"

subsection \<open>Capacity and data packing\<close>

definition AvailableBytes :: "layout \<Rightarrow> Builder \<Rightarrow> int" where
  "AvailableBytes c b = int (ShareSize c) - int (len (rawShareData b))"

text \<open>
  \<^verbatim>\<open>ImportRawShare\<close> stores the slice it is given, not a copy of its bytes: from then on
  the Builder's buffer is the caller's array.
\<close>

definition ImportRawShare :: "Builder \<Rightarrow> slice \<Rightarrow> Builder" where
  "ImportRawShare b rawBytes = b\<lparr>rawShareData := rawBytes\<rparr>"

text \<open>
  \<^verbatim>\<open>AddData\<close> returns the memory and the Builder as it leaves them, and the leftover,
  which is \<^verbatim>\<open>nil\<close> or a slice of the input's own array. \<open>None\<close> is the panic of one of
  the two slice expressions.
\<close>

definition AddData ::
    "layout \<Rightarrow> memory \<Rightarrow> Builder \<Rightarrow> slice \<Rightarrow> (memory \<times> Builder \<times> slice) option" where
  "AddData c m b rawData =
     (let pendingLeft = int (ShareSize c) - int (len (rawShareData b))
      in if int (len rawData) \<le> pendingLeft
         then (let (m', appended) = appendBytes m (rawShareData b) (view m rawData)
               in Some (m', b\<lparr>rawShareData := appended\<rparr>, nilSlice))
         else (case sliceTo rawData pendingLeft of
                 None \<Rightarrow> None
               | Some chunk \<Rightarrow>
                   (let (m', appended) = appendBytes m (rawShareData b) (view m chunk)
                    in case sliceFrom rawData pendingLeft of
                         None \<Rightarrow> None
                       | Some rawDataLeftOver \<Rightarrow>
                           Some (m', b\<lparr>rawShareData := appended\<rparr>, rawDataLeftOver))))"

definition IsEmptyShare :: "layout \<Rightarrow> Builder \<Rightarrow> bool" where
  "IsEmptyShare c b =
     (let expectedLen = NamespaceSize c + ShareInfoBytes;
          expectedLen = (if isCompactShare b then expectedLen + CompactShareReservedBytes
                         else expectedLen);
          expectedLen = (if isFirstShare b then expectedLen + SequenceLenBytes
                         else expectedLen)
      in len (rawShareData b) = expectedLen)"

definition ZeroPadIfNecessary ::
    "layout \<Rightarrow> memory \<Rightarrow> Builder \<Rightarrow> (memory \<times> Builder \<times> int) option" where
  "ZeroPadIfNecessary c m b =
     (case zeroPadIfNecessary m (rawShareData b) (ShareSize c) of
        None \<Rightarrow> None
      | Some (m', padded, bytesOfPadding) \<Rightarrow>
          Some (m', b\<lparr>rawShareData := padded\<rparr>, bytesOfPadding))"

subsection \<open>Header fields\<close>

definition indexOfReservedBytes :: "layout \<Rightarrow> Builder \<Rightarrow> nat" where
  "indexOfReservedBytes c b =
     (if isFirstShare b then NamespaceSize c + ShareInfoBytes + SequenceLenBytes
      else NamespaceSize c + ShareInfoBytes)"

definition indexOfInfoBytes :: "layout \<Rightarrow> Builder \<Rightarrow> nat" where
  "indexOfInfoBytes c b = NamespaceSize c"

text \<open>
  \<^verbatim>\<open>isEmptyReservedBytes\<close> returns \<^verbatim>\<open>(bool, error)\<close>: \<open>Inl\<close> is the error, \<open>Inr\<close> the
  answer, and \<open>None\<close> the panic of the slice expression. The slice expression is checked
  against the capacity, so on a buffer that ends before the region the call reads what
  the array holds beyond the buffer's length.
\<close>

definition isEmptyReservedBytes :: "layout \<Rightarrow> memory \<Rightarrow> Builder \<Rightarrow> (error + bool) option" where
  "isEmptyReservedBytes c m b =
     (let indexOfReservedBytes = indexOfReservedBytes c b
      in case sliceRange (rawShareData b) indexOfReservedBytes
                (indexOfReservedBytes + CompactShareReservedBytes) of
           None \<Rightarrow> None
         | Some region \<Rightarrow>
             (case ParseReservedBytes c (view m region) of
                Inl err \<Rightarrow> Some (Inl err)
              | Inr reservedBytes \<Rightarrow> Some (Inr (reservedBytes = 0))))"

text \<open>
  A method that returns \<^verbatim>\<open>error\<close> and mutates the receiver yields the returned error
  (\<open>None\<close> for \<^verbatim>\<open>nil\<close>) together with the memory and the Builder as the call leaves
  them; the outer \<open>None\<close> is a panic. \<^verbatim>\<open>uint32(byteIndexOfNextUnit)\<close> keeps the low 32
  bits of the length.
\<close>

definition MaybeWriteReservedBytes ::
    "layout \<Rightarrow> memory \<Rightarrow> Builder \<Rightarrow> (error option \<times> memory \<times> Builder) option" where
  "MaybeWriteReservedBytes c m b =
     (if \<not> isCompactShare b then Some (Some NotCompactShare, m, b)
      else (case isEmptyReservedBytes c m b of
              None \<Rightarrow> None
            | Some (Inl err) \<Rightarrow> Some (Some err, m, b)
            | Some (Inr isEmpty) \<Rightarrow>
                if \<not> isEmpty then Some (None, m, b)
                else (let byteIndexOfNextUnit = len (rawShareData b)
                      in case NewReservedBytes c (of_nat byteIndexOfNextUnit) of
                           Inl err \<Rightarrow> Some (Some err, m, b)
                         | Inr reservedBytes \<Rightarrow>
                             (case copyInto m (rawShareData b) (indexOfReservedBytes c b)
                                     reservedBytes [0..<CompactShareReservedBytes] of
                                None \<Rightarrow> None
                              | Some m' \<Rightarrow> Some (None, m', b)))))"

text \<open>
  The receiver of \<^verbatim>\<open>WriteSequenceLen\<close> is a pointer that the method compares with
  \<^verbatim>\<open>nil\<close>: it is a \<open>Builder option\<close> here, and so is the Builder the call leaves.
\<close>

definition WriteSequenceLen ::
    "layout \<Rightarrow> memory \<Rightarrow> Builder option \<Rightarrow> uint32 \<Rightarrow>
       (error option \<times> memory \<times> Builder option) option" where
  "WriteSequenceLen c m recv sequenceLen =
     (case recv of
        None \<Rightarrow> Some (Some NilBuilder, m, None)
      | Some b \<Rightarrow>
          if \<not> isFirstShare b then Some (Some NotFirstShare, m, Some b)
          else (case PutUint32 (replicate SequenceLenBytes 0) sequenceLen of
                  None \<Rightarrow> None
                | Some sequenceLenBuf \<Rightarrow>
                    (case copyInto m (rawShareData b) (NamespaceSize c + ShareInfoBytes)
                            sequenceLenBuf [0..<SequenceLenBytes] of
                       None \<Rightarrow> None
                     | Some m' \<Rightarrow> Some (None, m', Some b))))"

definition FlipSequenceStart :: "layout \<Rightarrow> memory \<Rightarrow> Builder \<Rightarrow> (memory \<times> Builder) option" where
  "FlipSequenceStart c m b =
     (let infoByteIndex = indexOfInfoBytes c b
      in case getIndex m (rawShareData b) infoByteIndex of
           None \<Rightarrow> None
         | Some infoByte \<Rightarrow>
             (case setIndex m (rawShareData b) infoByteIndex (infoByte XOR 1) of
                None \<Rightarrow> None
              | Some m' \<Rightarrow> Some (m', b)))"

subsection \<open>Sequences of Builder operations\<close>

text \<open>
  The mutating methods of a Builder, as values, and a Builder driven through a list of
  them the way the splitter drives it. Between two calls the caller's own code runs: it
  may write to memory, and so to an array that the Builder's buffer shares with it after
  an import, and it may allocate. \<open>Caller f\<close> is such a stretch of the caller's code,
  which leaves the memory \<open>f m\<close> and does not touch the Builder. A call that panics ends
  the run (\<open>None\<close>); a call that returns an error leaves memory and Builder as the method
  left them and the run goes on.
\<close>

datatype operation =
    OpAddData slice
  | OpImportRawShare slice
  | OpMaybeWriteReservedBytes
  | OpWriteSequenceLen uint32
  | OpFlipSequenceStart
  | OpZeroPadIfNecessary
  | Caller "memory \<Rightarrow> memory"

fun applyOperation ::
    "layout \<Rightarrow> memory \<Rightarrow> Builder \<Rightarrow> operation \<Rightarrow> (memory \<times> Builder) option" where
  "applyOperation c m b (OpAddData rawData) =
     map_option (\<lambda>(m', b', rawDataLeftOver). (m', b')) (AddData c m b rawData)"
| "applyOperation c m b (OpImportRawShare rawBytes) = Some (m, ImportRawShare b rawBytes)"
| "applyOperation c m b OpMaybeWriteReservedBytes =
     map_option snd (MaybeWriteReservedBytes c m b)"
| "applyOperation c m b (OpWriteSequenceLen sequenceLen) =
     (case WriteSequenceLen c m (Some b) sequenceLen of
        None \<Rightarrow> None
      | Some (err, m', recv) \<Rightarrow> map_option (Pair m') recv)"
| "applyOperation c m b OpFlipSequenceStart = FlipSequenceStart c m b"
| "applyOperation c m b OpZeroPadIfNecessary =
     map_option (\<lambda>(m', b', bytesOfPadding). (m', b')) (ZeroPadIfNecessary c m b)"
| "applyOperation c m b (Caller f) = Some (f m, b)"

fun runOperations ::
    "layout \<Rightarrow> memory \<Rightarrow> Builder \<Rightarrow> operation list \<Rightarrow> (memory \<times> Builder) option" where
  "runOperations c m b [] = Some (m, b)"
| "runOperations c m b (op # ops) =
     (case applyOperation c m b op of
        None \<Rightarrow> None
      | Some (m', b') \<Rightarrow> runOperations c m' b' ops)"

text \<open>An operation that imports a raw share imports at most \<open>ShareSize\<close> bytes.\<close>

fun importFits :: "layout \<Rightarrow> operation \<Rightarrow> bool" where
  "importFits c (OpImportRawShare rawBytes) = (len rawBytes \<le> ShareSize c)"
| "importFits c _ = True"

subsection \<open>A concrete layout and memory\<close>

text \<open>
  The instances below are evaluated at shares of 512 bytes with namespaces of 29 bytes,
  at the transaction namespace (28 zero bytes, then 1), which yields compact shares, and
  at a blob namespace, which yields sparse shares. \<open>zeroMemory\<close> is a memory of zero
  bytes in which the arrays below 8 are taken and a grown slice gets twice the length it
  needs.
\<close>

definition shareLayout :: layout where
  "shareLayout = \<lparr>ShareSize = 512, NamespaceSize = 29\<rparr>"

definition txNamespace :: Namespace where
  "txNamespace = \<lparr>Bytes = replicate 28 0 @ [1], IsTx = True, IsPayForBlob = False\<rparr>"

definition blobNamespace :: Namespace where
  "blobNamespace = \<lparr>Bytes = replicate 19 0 @ replicate 10 7, IsTx = False, IsPayForBlob = False\<rparr>"

definition zeroMemory :: memory where
  "zeroMemory = \<lparr>cells = (\<lambda>p j. 0), fresh = 8, growth = (\<lambda>old needed. 2 * needed)\<rparr>"

section \<open>Verification\<close>

subsection \<open>Memory, views and append\<close>

lemma cells_store:
  "cells (store m p i xs) q j =
     (if q = p \<and> i \<le> j \<and> j < i + length xs then xs ! (j - i) else cells m q j)"
  by (simp add: store_def)

lemma fresh_store: "fresh (store m p i xs) = fresh m"
  by (simp add: store_def)

lemma growth_store: "growth (store m p i xs) = growth m"
  by (simp add: store_def)

lemma memory_eqI:
  assumes "\<And>q j. cells m q j = cells m' q j" and "fresh m = fresh m'" and "growth m = growth m'"
  shows "m = (m' :: memory)"
proof -
  from assms(1) have "cells m = cells m'"
    by (intro ext)
  with assms(2,3) show ?thesis
    by simp
qed

lemma store_Nil: "store m p i [] = m"
  by (rule memory_eqI) (auto simp: cells_store fresh_store growth_store)

lemma length_view: "length (view m s) = len s"
  by (simp add: view_def)

lemma nth_view: "i < len s \<Longrightarrow> view m s ! i = cells m (ptr s) (off s + i)"
  by (simp add: view_def)

lemma view_store_end:
  assumes "ptr t = ptr s" and "off t = off s" and "len t = len s + length xs"
  shows "view (store m (ptr s) (off s + len s) xs) t = view m s @ xs"
proof (rule nth_equalityI)
  show "length (view (store m (ptr s) (off s + len s) xs) t) = length (view m s @ xs)"
    using assms by (simp add: length_view)
next
  fix i
  assume "i < length (view (store m (ptr s) (off s + len s) xs) t)"
  then have i: "i < len s + length xs"
    using assms by (simp add: length_view)
  show "view (store m (ptr s) (off s + len s) xs) t ! i = (view m s @ xs) ! i"
  proof (cases "i < len s")
    case True
    then show ?thesis
      using assms i by (simp add: nth_view cells_store nth_append length_view)
  next
    case False
    then have "off s + i - (off s + len s) = i - len s"
      by simp
    with False show ?thesis
      using assms i by (simp add: nth_view cells_store nth_append length_view)
  qed
qed

lemma view_store_disjoint:
  assumes "ptr t \<noteq> p \<or> off t + len t \<le> i \<or> i + length xs \<le> off t"
  shows "view (store m p i xs) t = view m t"
  using assms by (auto simp: view_def cells_store)

lemma appendBytes_len: "len (snd (appendBytes m s xs)) = len s + length xs"
  by (simp add: appendBytes_def Let_def)

lemma appendBytes_Nil: "appendBytes m s [] = (m, s)"
  by (simp add: appendBytes_def store_Nil)

lemma view_appendBytes:
  "view (fst (appendBytes m s xs)) (snd (appendBytes m s xs)) = view m s @ xs"
proof (cases "length xs \<le> spare s")
  case True
  then show ?thesis
    by (simp add: appendBytes_def view_store_end)
next
  case False
  then show ?thesis
    by (auto simp: appendBytes_def Let_def view_def length_view intro!: nth_equalityI)
qed

lemma view_appendBytes_other:
  assumes "ptr t \<noteq> ptr s \<or> off t + len t \<le> off s + len s \<or> off s + cap s \<le> off t"
    and "ptr t < fresh m"
  shows "view (fst (appendBytes m s xs)) t = view m t"
proof (cases "length xs \<le> spare s")
  case True
  with assms(1) have "ptr t \<noteq> ptr s \<or> off t + len t \<le> off s + len s
      \<or> off s + len s + length xs \<le> off t"
    by (auto simp: cap_def)
  with True show ?thesis
    by (simp add: appendBytes_def view_store_disjoint)
next
  case False
  with assms(2) show ?thesis
    by (simp add: appendBytes_def Let_def view_def)
qed

subsection \<open>The copy loop and the byte order\<close>

lemma copyInto_append:
  "copyInto m dst base src (xs @ ys) =
     (case copyInto m dst base src xs of
        None \<Rightarrow> None
      | Some m' \<Rightarrow> copyInto m' dst base src ys)"
  by (induction xs arbitrary: m) (auto split: option.splits)

lemma setIndex_store:
  assumes "base + n < len dst" and "n < length src"
  shows "setIndex (store m (ptr dst) (off dst + base) (take n src)) dst (base + n) (src ! n)
         = Some (store m (ptr dst) (off dst + base) (take (Suc n) src))"
proof -
  have "store m (ptr dst) (off dst + base) (take n src)
          \<lparr>cells := (cells (store m (ptr dst) (off dst + base) (take n src)))
             (ptr dst := (cells (store m (ptr dst) (off dst + base) (take n src)) (ptr dst))
                (off dst + (base + n) := src ! n))\<rparr>
        = store m (ptr dst) (off dst + base) (take (Suc n) src)"
    using assms(2)
    by (intro memory_eqI)
      (auto simp: cells_store fresh_store growth_store take_Suc_conv_app_nth nth_append
        less_Suc_eq)
  with assms(1) show ?thesis
    by (simp add: setIndex_def)
qed

lemma copyInto_upt:
  assumes "n \<le> length src"
  shows "copyInto m dst base src [0..<n] =
           (if n = 0 \<or> base + n \<le> len dst
            then Some (store m (ptr dst) (off dst + base) (take n src))
            else None)"
  using assms
proof (induction n)
  case 0
  then show ?case by (simp add: store_Nil)
next
  case (Suc n)
  then have prev: "copyInto m dst base src [0..<n] =
           (if n = 0 \<or> base + n \<le> len dst
            then Some (store m (ptr dst) (off dst + base) (take n src))
            else None)"
    and n: "n < length src"
    by simp_all
  show ?case
  proof (cases "base + Suc n \<le> len dst")
    case True
    with prev n show ?thesis
      by (simp add: copyInto_append setIndex_store)
  next
    case False
    then have "\<not> base + n < len dst"
      by simp
    then show ?thesis
      using prev n False by (simp add: copyInto_append setIndex_def)
  qed
qed

lemma length_bigEndian32: "length (bigEndian32 v) = 4"
  by (simp add: bigEndian32_def)

lemma Uint32_bigEndian32: "Uint32 (bigEndian32 v) = Some v"
proof -
  have "ucast (ucast v :: byte) OR push_bit 8 (ucast (ucast (drop_bit 8 v) :: byte))
        OR push_bit 16 (ucast (ucast (drop_bit 16 v) :: byte))
        OR push_bit 24 (ucast (ucast (drop_bit 24 v) :: byte)) = v" (is "?w = v")
  proof (rule bit_word_eqI)
    fix n :: nat
    assume "n < LENGTH(32)"
    then have n: "n < 32" by simp
    consider "n < 8" | "8 \<le> n" "n < 16" | "16 \<le> n" "n < 24" | "24 \<le> n"
      by linarith
    then show "bit ?w n = bit v n"
      using n by cases (auto simp: bit_simps)
  qed
  then show ?thesis by (simp add: bigEndian32_def)
qed

lemma push_bit_ucast_byte_eq_0:
  assumes "k \<le> 24" and "push_bit k (ucast (b :: byte) :: uint32) = 0"
  shows "b = 0"
proof (rule bit_word_eqI)
  fix n :: nat
  assume "n < LENGTH(8)"
  then have n: "n < 8" by simp
  have "bit (push_bit k (ucast b :: uint32)) (n + k) = bit (0 :: uint32) (n + k)"
    using assms(2) by simp
  then show "bit b n = bit (0 :: byte) n"
    using n assms(1) by (simp add: bit_simps)
qed

lemma Uint32_zero_iff:
  "Uint32 [b0, b1, b2, b3] = Some 0 \<longleftrightarrow> b0 = 0 \<and> b1 = 0 \<and> b2 = 0 \<and> b3 = 0"
proof
  assume "Uint32 [b0, b1, b2, b3] = Some 0"
  then have "push_bit 0 (ucast b3 :: uint32) = 0" "push_bit 8 (ucast b2 :: uint32) = 0"
    "push_bit 16 (ucast b1 :: uint32) = 0" "push_bit 24 (ucast b0 :: uint32) = 0"
    by (simp_all add: or_eq_0_iff)
  then show "b0 = 0 \<and> b1 = 0 \<and> b2 = 0 \<and> b3 = 0"
    using push_bit_ucast_byte_eq_0 [of 0 b3] push_bit_ucast_byte_eq_0 [of 8 b2]
      push_bit_ucast_byte_eq_0 [of 16 b1] push_bit_ucast_byte_eq_0 [of 24 b0]
    by simp
next
  assume "b0 = 0 \<and> b1 = 0 \<and> b2 = 0 \<and> b3 = 0"
  then show "Uint32 [b0, b1, b2, b3] = Some 0" by simp
qed


subsection \<open>Single cells and slice expressions\<close>

lemma setIndex_eq_store:
  "i < len s \<Longrightarrow> setIndex m s i v = Some (store m (ptr s) (off s + i) [v])"
  by (auto simp: setIndex_def store_def intro!: memory_eqI)

lemma getIndex_eq_view: "i < len s \<Longrightarrow> getIndex m s i = Some (view m s ! i)"
  by (simp add: getIndex_def nth_view)

lemma view_store_cell:
  assumes "i < len s"
  shows "view (store m (ptr s) (off s + i) [v]) s = (view m s)[i := v]"
proof (rule nth_equalityI)
  show "length (view (store m (ptr s) (off s + i) [v]) s) = length ((view m s)[i := v])"
    by (simp add: length_view)
next
  fix j
  assume "j < length (view (store m (ptr s) (off s + i) [v]) s)"
  then have "j < len s"
    by (simp add: length_view)
  then show "view (store m (ptr s) (off s + i) [v]) s ! j = (view m s)[i := v] ! j"
    by (auto simp: nth_view cells_store length_view nth_list_update)
qed

lemma store_cell_twice:
  "store (store m p i [v]) p i [w] = store m p i [w]"
  by (rule memory_eqI) (auto simp: cells_store fresh_store growth_store)

lemma store_cell_same: "store m p i [cells m p i] = m"
proof (rule memory_eqI)
  fix q j
  show "cells (store m p i [cells m p i]) q j = cells m q j"
  proof (cases "q = p \<and> i \<le> j \<and> j < Suc i")
    case True
    then have "j = i" by simp
    with True show ?thesis by (simp add: cells_store)
  next
    case False
    then show ?thesis by (auto simp: cells_store)
  qed
qed (simp_all add: fresh_store growth_store)

lemma view_sliceTo:
  assumes "k \<le> len s" and "ptr t = ptr s" and "off t = off s" and "len t = k"
  shows "view m t = take k (view m s)"
  using assms by (auto simp: view_def take_map intro!: nth_equalityI)

lemma view_take:
  "k \<le> len s \<Longrightarrow> view m (s\<lparr>len := k, spare := x\<rparr>) = take k (view m s)"
  by (rule view_sliceTo) simp_all

lemma view_sliceFrom:
  assumes "k \<le> len s" and "ptr t = ptr s" and "off t = off s + k" and "len t = len s - k"
  shows "view m t = drop k (view m s)"
  using assms by (auto simp: view_def drop_map add.assoc intro!: nth_equalityI)

lemma view_nilSlice: "view m nilSlice = []"
  by (simp add: view_def nilSlice_def)

subsection \<open>Errors that leave the Builder alone\<close>

text \<open>
  Claim C4. On a Builder whose \<open>isFirstShare\<close> flag is false, \<open>WriteSequenceLen\<close>
  returns the error \<open>NotFirstShare\<close> for every sequence length, and the Builder it leaves
  is the Builder it was given: the buffer and every other field are unchanged, and so is
  the whole memory.
\<close>

theorem WriteSequenceLen_not_first_share:
  "\<not> isFirstShare b \<Longrightarrow>
     WriteSequenceLen c m (Some b) sequenceLen = Some (Some NotFirstShare, m, Some b)"
  by (simp add: WriteSequenceLen_def)

theorem WriteSequenceLen_not_first_share_witness:
  "WriteSequenceLen shareLayout zeroMemory
     (Some \<lparr>namespace = txNamespace, shareVersion = 0, isFirstShare = False,
            isCompactShare = True,
            rawShareData = \<lparr>ptr = 0, off = 0, len = 34, spare = 478\<rparr>\<rparr>)
     1000
   = Some (Some NotFirstShare, zeroMemory,
       Some \<lparr>namespace = txNamespace, shareVersion = 0, isFirstShare = False,
             isCompactShare = True,
             rawShareData = \<lparr>ptr = 0, off = 0, len = 34, spare = 478\<rparr>\<rparr>)"
  using WriteSequenceLen_not_first_share
    [of "\<lparr>namespace = txNamespace, shareVersion = 0, isFirstShare = False,
          isCompactShare = True,
          rawShareData = \<lparr>ptr = 0, off = 0, len = 34, spare = 478\<rparr>\<rparr>"
        shareLayout zeroMemory 1000]
  by simp

text \<open>
  Claim C5. On a sparse Builder (\<open>isCompactShare\<close> false), \<open>MaybeWriteReservedBytes\<close>
  returns the error \<open>NotCompactShare\<close> and leaves the Builder, buffer included, and the
  memory as they were: the check comes before any read or write of the buffer.
\<close>

theorem MaybeWriteReservedBytes_sparse:
  "\<not> isCompactShare b \<Longrightarrow>
     MaybeWriteReservedBytes c m b = Some (Some NotCompactShare, m, b)"
  by (simp add: MaybeWriteReservedBytes_def)

theorem MaybeWriteReservedBytes_sparse_witness:
  "MaybeWriteReservedBytes shareLayout zeroMemory
     \<lparr>namespace = blobNamespace, shareVersion = 0, isFirstShare = False,
      isCompactShare = False, rawShareData = \<lparr>ptr = 0, off = 0, len = 30, spare = 482\<rparr>\<rparr>
   = Some (Some NotCompactShare, zeroMemory,
       \<lparr>namespace = blobNamespace, shareVersion = 0, isFirstShare = False,
        isCompactShare = False, rawShareData = \<lparr>ptr = 0, off = 0, len = 30, spare = 482\<rparr>\<rparr>)"
  using MaybeWriteReservedBytes_sparse
    [of "\<lparr>namespace = blobNamespace, shareVersion = 0, isFirstShare = False,
          isCompactShare = False,
          rawShareData = \<lparr>ptr = 0, off = 0, len = 30, spare = 482\<rparr>\<rparr>"
        shareLayout zeroMemory]
  by simp

subsection \<open>Packing data\<close>

lemma AddData_within:
  assumes "len (rawShareData b) \<le> ShareSize c"
  shows "AddData c m b rawData =
     (if len rawData \<le> ShareSize c - len (rawShareData b)
      then Some (fst (appendBytes m (rawShareData b) (view m rawData)),
                 b\<lparr>rawShareData := snd (appendBytes m (rawShareData b) (view m rawData))\<rparr>,
                 nilSlice)
      else Some (fst (appendBytes m (rawShareData b)
                        (take (ShareSize c - len (rawShareData b)) (view m rawData))),
                 b\<lparr>rawShareData := snd (appendBytes m (rawShareData b)
                        (take (ShareSize c - len (rawShareData b)) (view m rawData)))\<rparr>,
                 rawData\<lparr>off := off rawData + (ShareSize c - len (rawShareData b)),
                         len := len rawData - (ShareSize c - len (rawShareData b))\<rparr>))"
proof (cases "int (len rawData) \<le> int (ShareSize c) - int (len (rawShareData b))")
  case True
  then have "len rawData \<le> ShareSize c - len (rawShareData b)"
    by linarith
  with True show ?thesis
    by (simp add: AddData_def split_beta)
next
  case False
  let ?k = "ShareSize c - len (rawShareData b)"
  have k: "nat (int (ShareSize c) - int (len (rawShareData b))) = ?k"
    by linarith
  from False assms have long: "\<not> len rawData \<le> ?k" and k_le: "?k \<le> len rawData"
    by linarith+
  from False assms k_le show ?thesis
    by (simp add: AddData_def sliceTo_def sliceFrom_def cap_def k long view_take split_beta)
qed

lemma AddData_oversized:
  assumes "ShareSize c < len (rawShareData b)"
  shows "AddData c m b rawData = None"
proof -
  have "\<not> int (len rawData) \<le> int (ShareSize c) - int (len (rawShareData b))"
    using assms by linarith
  moreover have "\<not> 0 \<le> int (ShareSize c) - int (len (rawShareData b))"
    using assms by linarith
  ultimately show ?thesis
    by (simp add: AddData_def sliceTo_def)
qed

text \<open>
  Claim C2, as amended. On a Builder whose buffer is at most \<open>ShareSize\<close> long,
  \<open>AddData\<close> appends the first \<open>min (len input) (AvailableBytes)\<close> bytes of the input,
  as the input holds them when the call starts, to the buffer, never more than
  \<open>AvailableBytes\<close>, and changes no other field. It returns the slice of the input
  behind these bytes (\<^verbatim>\<open>nil\<close> when the whole input fit), whose length is
  \<open>max 0 (len input - AvailableBytes)\<close>. That slice holds the unconsumed suffix of the
  input provided the input, a slice of an array allocated before the call, does not
  overlap the spare capacity of the buffer, into which the call writes. (On a buffer
  longer than \<open>ShareSize\<close> the call panics; and where the input overlaps the spare
  capacity the bytes of the leftover can be overwritten by the append.)
\<close>

theorem AddData_appends_what_fits:
  assumes "len (rawShareData b) \<le> ShareSize c"
  shows "case AddData c m b rawData of
           None \<Rightarrow> False
         | Some (m', b', leftover) \<Rightarrow>
             namespace b' = namespace b \<and> shareVersion b' = shareVersion b
             \<and> isFirstShare b' = isFirstShare b \<and> isCompactShare b' = isCompactShare b
             \<and> view m' (rawShareData b') =
                 view m (rawShareData b) @ take (nat (AvailableBytes c b)) (view m rawData)
             \<and> int (len (rawShareData b')) - int (len (rawShareData b)) =
                 min (int (len rawData)) (AvailableBytes c b)
             \<and> int (len (rawShareData b')) - int (len (rawShareData b)) \<le> AvailableBytes c b
             \<and> leftover =
                 (if int (len rawData) \<le> AvailableBytes c b then nilSlice
                  else rawData\<lparr>off := off rawData + nat (AvailableBytes c b),
                               len := len rawData - nat (AvailableBytes c b)\<rparr>)
             \<and> int (len leftover) = max 0 (int (len rawData) - AvailableBytes c b)
             \<and> (int (len rawData) \<le> AvailableBytes c b \<longrightarrow> len leftover = 0)
             \<and> ((ptr rawData \<noteq> ptr (rawShareData b)
                   \<or> off rawData + len rawData \<le> off (rawShareData b) + len (rawShareData b)
                   \<or> off (rawShareData b) + cap (rawShareData b) \<le> off rawData)
                  \<and> ptr rawData < fresh m
                  \<longrightarrow> view m' leftover = drop (nat (AvailableBytes c b)) (view m rawData))"
proof -
  let ?s = "rawShareData b"
  let ?k = "ShareSize c - len ?s"
  have avail: "AvailableBytes c b = int ?k"
    using assms by (simp add: AvailableBytes_def)
  show ?thesis
  proof (cases "len rawData \<le> ?k")
    case True
    let ?a = "appendBytes m ?s (view m rawData)"
    from True have result: "AddData c m b rawData =
        Some (fst ?a, b\<lparr>rawShareData := snd ?a\<rparr>, nilSlice)"
      using assms by (simp add: AddData_within)
    have "view (fst ?a) (snd ?a) = view m ?s @ take ?k (view m rawData)"
      using True by (simp add: view_appendBytes length_view)
    moreover have "int (len (snd ?a)) - int (len ?s) = min (int (len rawData)) (int ?k)"
      using True by (simp add: appendBytes_len length_view)
    moreover have "view (fst ?a) nilSlice = drop ?k (view m rawData)"
      using True by (simp add: view_nilSlice length_view)
    ultimately show ?thesis
      using True by (simp add: result avail nilSlice_def)
  next
    case False
    let ?a = "appendBytes m ?s (take ?k (view m rawData))"
    let ?rest = "rawData\<lparr>off := off rawData + ?k, len := len rawData - ?k\<rparr>"
    from False have k_le: "?k \<le> len rawData"
      by simp
    from False have result: "AddData c m b rawData =
        Some (fst ?a, b\<lparr>rawShareData := snd ?a\<rparr>, ?rest)"
      using assms by (simp add: AddData_within)
    have content: "view (fst ?a) (snd ?a) = view m ?s @ take ?k (view m rawData)"
      by (simp add: view_appendBytes)
    have count: "int (len (snd ?a)) - int (len ?s) = min (int (len rawData)) (int ?k)"
      using k_le by (simp add: appendBytes_len length_view)
    have rest: "view (fst ?a) ?rest = drop ?k (view m rawData)"
      if apart: "ptr rawData \<noteq> ptr ?s \<or> off rawData + len rawData \<le> off ?s + len ?s
          \<or> off ?s + cap ?s \<le> off rawData"
        and allocated: "ptr rawData < fresh m"
    proof -
      from apart k_le have "ptr ?rest \<noteq> ptr ?s \<or> off ?rest + len ?rest \<le> off ?s + len ?s
          \<or> off ?s + cap ?s \<le> off ?rest"
        by auto
      moreover from allocated have "ptr ?rest < fresh m"
        by simp
      ultimately have "view (fst ?a) ?rest = view m ?rest"
        by (rule view_appendBytes_other)
      also have "\<dots> = drop ?k (view m rawData)"
        using k_le by (intro view_sliceFrom) simp_all
      finally show ?thesis .
    qed
    from False content count rest show ?thesis
      by (simp add: result avail)
  qed
qed

theorem AddData_appends_what_fits_witness:
  "case AddData shareLayout (store zeroMemory 5 0 [1, 2, 3, 4, 5])
          \<lparr>namespace = blobNamespace, shareVersion = 0, isFirstShare = False,
           isCompactShare = False, rawShareData = \<lparr>ptr = 0, off = 0, len = 510, spare = 2\<rparr>\<rparr>
          \<lparr>ptr = 5, off = 0, len = 5, spare = 0\<rparr> of
     None \<Rightarrow> False
   | Some (m', b', leftover) \<Rightarrow>
       len (rawShareData b') = 512
       \<and> leftover = \<lparr>ptr = 5, off = 2, len = 3, spare = 0\<rparr>
       \<and> view m' leftover = [3, 4, 5]"
proof -
  let ?m = "store zeroMemory 5 0 [1, 2, 3, 4, 5]"
  let ?b = "\<lparr>namespace = blobNamespace, shareVersion = 0, isFirstShare = False,
      isCompactShare = False, rawShareData = \<lparr>ptr = 0, off = 0, len = 510, spare = 2\<rparr>\<rparr>"
  let ?input = "\<lparr>ptr = 5, off = 0, len = 5, spare = 0\<rparr>"
  have fits: "len (rawShareData ?b) \<le> ShareSize shareLayout"
    by (simp add: shareLayout_def)
  have avail: "AvailableBytes shareLayout ?b = 2"
    by (simp add: AvailableBytes_def shareLayout_def)
  have input: "view ?m ?input = [1, 2, 3, 4, 5]"
    by (simp add: view_def cells_store upt_conv_Cons)
  have allocated: "ptr ?input < fresh ?m"
    by (simp add: fresh_store zeroMemory_def)
  note appended = AddData_appends_what_fits [OF fits, of ?m ?input]
  then have "AddData shareLayout ?m ?b ?input \<noteq> None"
    by (auto split: option.splits)
  then obtain m' b' leftover
    where result: "AddData shareLayout ?m ?b ?input = Some (m', b', leftover)"
    by auto
  from appended [unfolded result] have length: "len (rawShareData b') = 512"
    by (simp add: avail)
  from appended [unfolded result] have slice: "leftover = \<lparr>ptr = 5, off = 2, len = 3, spare = 0\<rparr>"
    by (simp add: avail)
  from appended [unfolded result] allocated have content: "view m' leftover = [3, 4, 5]"
    by (auto simp: avail input)
  from length slice content show ?thesis
    by (simp add: result)
qed

text \<open>
  The claim as it was written fails twice. On a buffer of 513 bytes \<open>AvailableBytes\<close>
  is \<open>-1\<close> and \<open>AddData\<close> panics. And on a buffer that is the first 510 bytes of an
  array of 520 bytes, with an input that is the five bytes \<open>1, 2, 3, 4, 5\<close> of the same
  array from index 509 on, the call appends \<open>1, 2\<close> in place and thereby overwrites the
  input: the slice it returns holds \<open>2, 4, 5\<close>, where the suffix of the input was
  \<open>3, 4, 5\<close>.
\<close>

theorem AddData_every_builder_counterexample:
  "AvailableBytes shareLayout
     \<lparr>namespace = blobNamespace, shareVersion = 0, isFirstShare = False,
      isCompactShare = False, rawShareData = \<lparr>ptr = 0, off = 0, len = 513, spare = 0\<rparr>\<rparr> = - 1
   \<and> AddData shareLayout zeroMemory
       \<lparr>namespace = blobNamespace, shareVersion = 0, isFirstShare = False,
        isCompactShare = False, rawShareData = \<lparr>ptr = 0, off = 0, len = 513, spare = 0\<rparr>\<rparr>
       \<lparr>ptr = 5, off = 0, len = 3, spare = 0\<rparr> = None
   \<and> view (store zeroMemory 0 509 [1, 2, 3, 4, 5]) \<lparr>ptr = 0, off = 509, len = 5, spare = 6\<rparr>
       = [1, 2, 3, 4, 5]
   \<and> (case AddData shareLayout (store zeroMemory 0 509 [1, 2, 3, 4, 5])
          \<lparr>namespace = blobNamespace, shareVersion = 0, isFirstShare = False,
           isCompactShare = False, rawShareData = \<lparr>ptr = 0, off = 0, len = 510, spare = 10\<rparr>\<rparr>
          \<lparr>ptr = 0, off = 509, len = 5, spare = 6\<rparr> of
        None \<Rightarrow> False
      | Some (m', b', leftover) \<Rightarrow>
          rawShareData b' = \<lparr>ptr = 0, off = 0, len = 512, spare = 8\<rparr>
          \<and> leftover = \<lparr>ptr = 0, off = 511, len = 3, spare = 6\<rparr>
          \<and> view m' leftover = [2, 4, 5])"
proof -
  let ?m = "store zeroMemory 0 509 [1, 2, 3, 4, 5]"
  let ?input = "\<lparr>ptr = 0, off = 509, len = 5, spare = 6\<rparr>"
  have "AvailableBytes shareLayout
     \<lparr>namespace = blobNamespace, shareVersion = 0, isFirstShare = False,
      isCompactShare = False, rawShareData = \<lparr>ptr = 0, off = 0, len = 513, spare = 0\<rparr>\<rparr> = - 1"
    by (simp add: AvailableBytes_def shareLayout_def)
  moreover have "AddData shareLayout zeroMemory
       \<lparr>namespace = blobNamespace, shareVersion = 0, isFirstShare = False,
        isCompactShare = False, rawShareData = \<lparr>ptr = 0, off = 0, len = 513, spare = 0\<rparr>\<rparr>
       \<lparr>ptr = 5, off = 0, len = 3, spare = 0\<rparr> = None"
    by (simp add: AddData_oversized shareLayout_def)
  moreover have input: "view ?m ?input = [1, 2, 3, 4, 5]"
    by (simp add: view_def cells_store upt_conv_Cons)
  moreover have "case AddData shareLayout ?m
          \<lparr>namespace = blobNamespace, shareVersion = 0, isFirstShare = False,
           isCompactShare = False, rawShareData = \<lparr>ptr = 0, off = 0, len = 510, spare = 10\<rparr>\<rparr>
          ?input of
        None \<Rightarrow> False
      | Some (m', b', leftover) \<Rightarrow>
          rawShareData b' = \<lparr>ptr = 0, off = 0, len = 512, spare = 8\<rparr>
          \<and> leftover = \<lparr>ptr = 0, off = 511, len = 3, spare = 6\<rparr>
          \<and> view m' leftover = [2, 4, 5]"
    by (simp add: AddData_within shareLayout_def input appendBytes_def view_def cells_store
        upt_conv_Cons)
  ultimately show ?thesis
    by blast
qed

text \<open>
  Claim C10. On a Builder whose buffer is at most \<open>ShareSize\<close> long, \<open>AddData\<close> does
  not panic: it returns, and whenever it reaches the two slice expressions
  \<^verbatim>\<open>rawData[:pendingLeft]\<close> and \<^verbatim>\<open>rawData[pendingLeft:]\<close> both are in range. When the
  buffer is exactly full, the call writes nothing, the Builder is unchanged and the
  leftover holds the whole input: it is the input slice itself, or \<^verbatim>\<open>nil\<close> for an empty
  input. When the buffer is longer than \<open>ShareSize\<close>, \<open>pendingLeft\<close> (the value of
  \<open>AvailableBytes\<close>) is negative, the first slice expression is out of range, and
  \<open>AddData\<close> panics on every input.
\<close>

theorem AddData_slice_safety:
  "(len (rawShareData b) \<le> ShareSize c \<longrightarrow>
      AddData c m b rawData \<noteq> None
      \<and> (\<not> int (len rawData) \<le> AvailableBytes c b \<longrightarrow>
           sliceTo rawData (AvailableBytes c b) \<noteq> None
           \<and> sliceFrom rawData (AvailableBytes c b) \<noteq> None))
   \<and> (len (rawShareData b) = ShareSize c \<longrightarrow>
        AvailableBytes c b = 0
        \<and> AddData c m b rawData =
            Some (m, b, if len rawData = 0 then nilSlice else rawData)
        \<and> view m (if len rawData = 0 then nilSlice else rawData) = view m rawData)
   \<and> (ShareSize c < len (rawShareData b) \<longrightarrow>
        AvailableBytes c b < 0
        \<and> sliceTo rawData (AvailableBytes c b) = None
        \<and> AddData c m b rawData = None)"
proof (intro conjI impI)
  assume le: "len (rawShareData b) \<le> ShareSize c"
  then show "AddData c m b rawData \<noteq> None"
    by (simp add: AddData_within)
  assume "\<not> int (len rawData) \<le> AvailableBytes c b"
  with le show "sliceTo rawData (AvailableBytes c b) \<noteq> None"
    and "sliceFrom rawData (AvailableBytes c b) \<noteq> None"
    by (simp_all add: AvailableBytes_def sliceTo_def sliceFrom_def cap_def)
next
  assume full: "len (rawShareData b) = ShareSize c"
  then show "AvailableBytes c b = 0"
    by (simp add: AvailableBytes_def)
  from full show "AddData c m b rawData =
      Some (m, b, if len rawData = 0 then nilSlice else rawData)"
    by (simp add: AddData_within appendBytes_Nil view_def)
  show "view m (if len rawData = 0 then nilSlice else rawData) = view m rawData"
    by (simp add: view_def nilSlice_def)
next
  assume over: "ShareSize c < len (rawShareData b)"
  then show "AvailableBytes c b < 0"
    by (simp add: AvailableBytes_def)
  from over show "sliceTo rawData (AvailableBytes c b) = None"
    by (simp add: AvailableBytes_def sliceTo_def)
  from over show "AddData c m b rawData = None"
    by (rule AddData_oversized)
qed

theorem AddData_slice_safety_witness:
  "AddData shareLayout zeroMemory
     \<lparr>namespace = blobNamespace, shareVersion = 0, isFirstShare = False,
      isCompactShare = False, rawShareData = \<lparr>ptr = 0, off = 0, len = 512, spare = 0\<rparr>\<rparr>
     \<lparr>ptr = 5, off = 0, len = 3, spare = 0\<rparr>
   = Some (zeroMemory,
       \<lparr>namespace = blobNamespace, shareVersion = 0, isFirstShare = False,
        isCompactShare = False, rawShareData = \<lparr>ptr = 0, off = 0, len = 512, spare = 0\<rparr>\<rparr>,
       \<lparr>ptr = 5, off = 0, len = 3, spare = 0\<rparr>)
   \<and> AddData shareLayout zeroMemory
       \<lparr>namespace = blobNamespace, shareVersion = 0, isFirstShare = False,
        isCompactShare = False, rawShareData = \<lparr>ptr = 0, off = 0, len = 600, spare = 0\<rparr>\<rparr>
       \<lparr>ptr = 5, off = 0, len = 3, spare = 0\<rparr> = None"
proof -
  let ?full = "\<lparr>namespace = blobNamespace, shareVersion = 0, isFirstShare = False,
      isCompactShare = False, rawShareData = \<lparr>ptr = 0, off = 0, len = 512, spare = 0\<rparr>\<rparr>"
  let ?over = "\<lparr>namespace = blobNamespace, shareVersion = 0, isFirstShare = False,
      isCompactShare = False, rawShareData = \<lparr>ptr = 0, off = 0, len = 600, spare = 0\<rparr>\<rparr>"
  let ?input = "\<lparr>ptr = 5, off = 0, len = 3, spare = 0\<rparr>"
  have full: "len (rawShareData ?full) = ShareSize shareLayout"
    by (simp add: shareLayout_def)
  have over: "ShareSize shareLayout < len (rawShareData ?over)"
    by (simp add: shareLayout_def)
  from full AddData_slice_safety [of ?full shareLayout zeroMemory ?input]
  have "AddData shareLayout zeroMemory ?full ?input =
      Some (zeroMemory, ?full, if len ?input = 0 then nilSlice else ?input)"
    by blast
  then have "AddData shareLayout zeroMemory ?full ?input = Some (zeroMemory, ?full, ?input)"
    by simp
  moreover from over AddData_slice_safety [of ?over shareLayout zeroMemory ?input]
  have "AddData shareLayout zeroMemory ?over ?input = None"
    by blast
  ultimately show ?thesis
    by blast
qed

subsection \<open>Construction\<close>

lemma infoByte_decode_version:
  assumes "version \<le> MaxShareVersion"
  shows "drop_bit 1 (push_bit 1 version + (of_bool first :: byte)) = version"
proof -
  have v: "unat version \<le> 127"
    using assms by (simp add: MaxShareVersion_def word_le_nat_alt)
  have "unat (push_bit 1 version + (of_bool first :: byte)) = 2 * unat version + of_bool first"
    using v by (cases first) (simp_all add: unat_word_ariths push_bit_eq_mult)
  then have "unat (push_bit 1 version + (of_bool first :: byte)) div 2 = unat version"
    by simp
  then have "unat (drop_bit 1 (push_bit 1 version + (of_bool first :: byte))) = unat version"
    by (simp add: drop_bit_eq_div unat_div del: of_bool_eq_iff)
  then show ?thesis
    by (simp only: word_unat_eq_iff)
qed

lemma infoByte_decode_flag:
  "bit (push_bit 1 version + (of_bool first :: byte)) 0 = first"
  by (cases first) (simp_all add: bit_0)

lemma NewInfoByte_eq:
  "NewInfoByte version first =
     (if MaxShareVersion < version then Inl InvalidVersion
      else Inr (push_bit 1 version + of_bool first))"
  by (simp add: NewInfoByte_def Let_def)

lemma view_makeSlice: "view (fst (makeSlice m n)) (snd (makeSlice m n)) = []"
  by (simp add: makeSlice_def view_def)

lemma NewBuilder_eq:
  "NewBuilder c m ns version first =
     (if MaxShareVersion < version then Inl InvalidVersion
      else (let a0 = makeSlice m (ShareSize c);
                a1 = appendBytes (fst a0) (snd a0) (Bytes ns);
                a2 = appendBytes (fst a1) (snd a1) [push_bit 1 version + of_bool first];
                a3 = (if first
                      then appendBytes (fst a2) (snd a2) (replicate SequenceLenBytes 0)
                      else a2);
                a4 = (if IsTx ns \<or> IsPayForBlob ns
                      then appendBytes (fst a3) (snd a3) (replicate CompactShareReservedBytes 0)
                      else a3)
            in Inr (fst a4,
                 \<lparr>namespace = ns, shareVersion = version, isFirstShare = first,
                  isCompactShare = (IsTx ns \<or> IsPayForBlob ns), rawShareData = snd a4\<rparr>)))"
  by (simp add: NewBuilder_def init_builder_def prepareCompactShare_def prepareSparseShare_def
      isCompactShareNs_def NewInfoByte_eq Let_def split_beta)

lemma NewBuilder_Inl:
  assumes "NewBuilder c m ns version first = Inl err"
  shows "err = InvalidVersion" and "MaxShareVersion < version"
  using assms by (auto simp: NewBuilder_eq Let_def split: if_splits)

lemma NewBuilder_Inr:
  assumes "NewBuilder c m ns version first = Inr (m', b)"
  shows "version \<le> MaxShareVersion"
    and "namespace b = ns" and "shareVersion b = version" and "isFirstShare b = first"
    and "isCompactShare b = (IsTx ns \<or> IsPayForBlob ns)"
    and "view m' (rawShareData b) =
           Bytes ns @ [push_bit 1 version + of_bool first]
           @ (if first then replicate SequenceLenBytes 0 else [])
           @ (if IsTx ns \<or> IsPayForBlob ns then replicate CompactShareReservedBytes 0 else [])"
  using assms
  by (auto simp: NewBuilder_eq Let_def view_appendBytes view_makeSlice split: if_splits)

lemma NewBuilder_succeeds:
  assumes "version \<le> MaxShareVersion"
  shows "\<exists>m' b. NewBuilder c m ns version first = Inr (m', b)"
  using assms by (simp add: NewBuilder_eq Let_def)

lemma NewBuilder_len:
  assumes "NewBuilder c m ns version first = Inr (m', b)"
  shows "len (rawShareData b) =
           length (Bytes ns) + ShareInfoBytes + (if first then SequenceLenBytes else 0)
           + (if IsTx ns \<or> IsPayForBlob ns then CompactShareReservedBytes else 0)"
proof -
  have "len (rawShareData b) = length (view m' (rawShareData b))"
    by (simp add: length_view)
  then show ?thesis
    by (simp add: NewBuilder_Inr(6) [OF assms] ShareInfoBytes_def)
qed

text \<open>
  Claim C6. For every namespace, share version and first-share flag, \<open>NewBuilder\<close>
  fails with \<open>InvalidVersion\<close> when the version exceeds the encodable range (it is above
  \<open>MaxShareVersion\<close>), and only then. Otherwise it returns a Builder whose kind is
  compact exactly when the namespace is a transaction or a pay-for-blob namespace, and
  whose buffer holds, in order: the namespace bytes, one info byte, a zero-filled
  sequence-length placeholder if and only if \<open>isFirstShare\<close>, and a zero-filled
  reserved-bytes placeholder if and only if the kind is compact. The info byte encodes the
  version and the flag: its bit 0 is the flag and its remaining bits, shifted down, are
  the version.
\<close>

theorem NewBuilder_writes_header:
  "(MaxShareVersion < version \<longrightarrow> NewBuilder c m ns version first = Inl InvalidVersion)
   \<and> (case NewBuilder c m ns version first of
         Inl err \<Rightarrow> err = InvalidVersion \<and> MaxShareVersion < version
       | Inr (m', b) \<Rightarrow>
           version \<le> MaxShareVersion
           \<and> namespace b = ns \<and> shareVersion b = version \<and> isFirstShare b = first
           \<and> isCompactShare b = (IsTx ns \<or> IsPayForBlob ns)
           \<and> view m' (rawShareData b) =
               Bytes ns @ [push_bit 1 version + of_bool first]
               @ (if first then replicate SequenceLenBytes 0 else [])
               @ (if IsTx ns \<or> IsPayForBlob ns then replicate CompactShareReservedBytes 0
                  else []))
   \<and> (version \<le> MaxShareVersion \<longrightarrow>
        bit (push_bit 1 version + (of_bool first :: byte)) 0 = first
        \<and> drop_bit 1 (push_bit 1 version + (of_bool first :: byte)) = version)"
proof (intro conjI impI)
  assume "MaxShareVersion < version"
  then show "NewBuilder c m ns version first = Inl InvalidVersion"
    by (simp add: NewBuilder_eq)
next
  show "case NewBuilder c m ns version first of
         Inl err \<Rightarrow> err = InvalidVersion \<and> MaxShareVersion < version
       | Inr (m', b) \<Rightarrow>
           version \<le> MaxShareVersion
           \<and> namespace b = ns \<and> shareVersion b = version \<and> isFirstShare b = first
           \<and> isCompactShare b = (IsTx ns \<or> IsPayForBlob ns)
           \<and> view m' (rawShareData b) =
               Bytes ns @ [push_bit 1 version + of_bool first]
               @ (if first then replicate SequenceLenBytes 0 else [])
               @ (if IsTx ns \<or> IsPayForBlob ns then replicate CompactShareReservedBytes 0
                  else [])"
  proof (cases "NewBuilder c m ns version first")
    case (Inl err)
    then show ?thesis
      using NewBuilder_Inl [OF Inl] by simp
  next
    case (Inr r)
    obtain m' b where r: "r = (m', b)"
      by (cases r)
    from Inr have new: "NewBuilder c m ns version first = Inr (m', b)"
      by (simp add: r)
    show ?thesis
      using NewBuilder_Inr [OF new] by (simp add: new)
  qed
next
  assume "version \<le> MaxShareVersion"
  then show "bit (push_bit 1 version + (of_bool first :: byte)) 0 = first"
    and "drop_bit 1 (push_bit 1 version + (of_bool first :: byte)) = version"
    using infoByte_decode_flag [of version first] infoByte_decode_version [of version first]
    by blast+
qed

theorem NewBuilder_writes_header_witness:
  "(case NewBuilder shareLayout zeroMemory txNamespace 3 True of
      Inl err \<Rightarrow> False
    | Inr (m', b) \<Rightarrow>
        isCompactShare b
        \<and> view m' (rawShareData b) = replicate 28 0 @ [1] @ [7] @ replicate 4 0 @ replicate 4 0)
   \<and> bit (7 :: byte) 0 \<and> drop_bit 1 (7 :: byte) = 3
   \<and> NewBuilder shareLayout zeroMemory blobNamespace 128 False = Inl InvalidVersion"
proof -
  have ok: "(3 :: uint8) \<le> MaxShareVersion"
    by (simp add: MaxShareVersion_def)
  have seven: "push_bit 1 (3 :: uint8) + of_bool True = 7"
    by simp
  note header = NewBuilder_writes_header [of 3 shareLayout zeroMemory txNamespace True]
  have "case NewBuilder shareLayout zeroMemory txNamespace 3 True of
      Inl err \<Rightarrow> False
    | Inr (m', b) \<Rightarrow>
        isCompactShare b
        \<and> view m' (rawShareData b) = replicate 28 0 @ [1] @ [7] @ replicate 4 0 @ replicate 4 0"
  proof (cases "NewBuilder shareLayout zeroMemory txNamespace 3 True")
    case (Inl err)
    with header ok show ?thesis
      by (simp add: MaxShareVersion_def)
  next
    case (Inr r)
    with header show ?thesis
      by (cases r)
        (simp add: txNamespace_def SequenceLenBytes_def CompactShareReservedBytes_def)
  qed
  moreover have "bit (7 :: byte) 0 \<and> drop_bit 1 (7 :: byte) = 3"
    using header ok unfolding seven by blast
  moreover have "NewBuilder shareLayout zeroMemory blobNamespace 128 False = Inl InvalidVersion"
    using NewBuilder_writes_header [of 128 shareLayout zeroMemory blobNamespace False]
    by (simp add: MaxShareVersion_def)
  ultimately show ?thesis
    by blast
qed

subsection \<open>Importing a raw share and flipping the sequence start\<close>

lemma WriteSequenceLen_writes:
  assumes "isFirstShare b"
    and "NamespaceSize c + ShareInfoBytes + SequenceLenBytes \<le> len (rawShareData b)"
  shows "WriteSequenceLen c m (Some b) sequenceLen =
           Some (None,
                 store m (ptr (rawShareData b))
                   (off (rawShareData b) + (NamespaceSize c + ShareInfoBytes))
                   (bigEndian32 sequenceLen),
                 Some b)"
proof -
  have put: "PutUint32 (replicate SequenceLenBytes 0) sequenceLen = Some (bigEndian32 sequenceLen)"
    by (simp add: PutUint32_def SequenceLenBytes_def)
  have whole: "take SequenceLenBytes (bigEndian32 sequenceLen) = bigEndian32 sequenceLen"
    by (simp add: length_bigEndian32 SequenceLenBytes_def)
  have "SequenceLenBytes \<le> length (bigEndian32 sequenceLen)"
    by (simp add: length_bigEndian32 SequenceLenBytes_def)
  then have "copyInto m (rawShareData b) (NamespaceSize c + ShareInfoBytes)
          (bigEndian32 sequenceLen) [0..<SequenceLenBytes] =
        Some (store m (ptr (rawShareData b))
                (off (rawShareData b) + (NamespaceSize c + ShareInfoBytes))
                (bigEndian32 sequenceLen))"
    using assms(2) by (simp add: copyInto_upt whole)
  then show ?thesis
    using assms(1) by (simp add: WriteSequenceLen_def put)
qed

text \<open>
  Claim C9, as amended. \<open>ImportRawShare\<close> replaces the internal buffer by the given
  slice, whatever the buffer was before, so that the buffer holds the given bytes, and
  leaves the other fields of the Builder (namespace, share version, \<open>isFirstShare\<close>,
  \<open>isCompactShare\<close>) as they were: these fields still decide what the later operations
  do.
\<close>

theorem ImportRawShare_replaces_buffer_only:
  "rawShareData (ImportRawShare b rawBytes) = rawBytes
   \<and> view m (rawShareData (ImportRawShare b rawBytes)) = view m rawBytes
   \<and> ImportRawShare (b\<lparr>rawShareData := previous\<rparr>) rawBytes = ImportRawShare b rawBytes
   \<and> namespace (ImportRawShare b rawBytes) = namespace b
   \<and> shareVersion (ImportRawShare b rawBytes) = shareVersion b
   \<and> isFirstShare (ImportRawShare b rawBytes) = isFirstShare b
   \<and> isCompactShare (ImportRawShare b rawBytes) = isCompactShare b"
  by (simp add: ImportRawShare_def)

text \<open>
  The claim as it was written fails: two Builders made by \<open>NewBuilder\<close> that import the
  same share of 512 bytes go on to behave differently, one writing the sequence length
  into the share and the other refusing with \<open>NotFirstShare\<close>.
\<close>

theorem ImportRawShare_prior_state_counterexample:
  "case NewBuilder shareLayout zeroMemory txNamespace 0 True of
     Inl err \<Rightarrow> False
   | Inr (m1, firstShare) \<Rightarrow>
       (case NewBuilder shareLayout m1 txNamespace 0 False of
          Inl err \<Rightarrow> False
        | Inr (m2, continuation) \<Rightarrow>
            WriteSequenceLen shareLayout m2
              (Some (ImportRawShare firstShare \<lparr>ptr = 0, off = 0, len = 512, spare = 0\<rparr>)) 7
            = Some (None, store m2 0 30 [0, 0, 0, 7],
                Some (ImportRawShare firstShare \<lparr>ptr = 0, off = 0, len = 512, spare = 0\<rparr>))
            \<and> WriteSequenceLen shareLayout m2
                (Some (ImportRawShare continuation \<lparr>ptr = 0, off = 0, len = 512, spare = 0\<rparr>)) 7
              = Some (Some NotFirstShare, m2,
                  Some (ImportRawShare continuation \<lparr>ptr = 0, off = 0, len = 512, spare = 0\<rparr>)))"
proof -
  let ?share = "\<lparr>ptr = 0, off = 0, len = 512, spare = 0\<rparr>"
  have ok: "(0 :: uint8) \<le> MaxShareVersion"
    by simp
  obtain m1 firstShare
    where new1: "NewBuilder shareLayout zeroMemory txNamespace 0 True = Inr (m1, firstShare)"
    using NewBuilder_succeeds [OF ok] by blast
  obtain m2 continuation
    where new2: "NewBuilder shareLayout m1 txNamespace 0 False = Inr (m2, continuation)"
    using NewBuilder_succeeds [OF ok] by blast
  have first: "isFirstShare (ImportRawShare firstShare ?share)"
    using NewBuilder_Inr(4) [OF new1] by (simp add: ImportRawShare_def)
  have notFirst: "\<not> isFirstShare (ImportRawShare continuation ?share)"
    using NewBuilder_Inr(4) [OF new2] by (simp add: ImportRawShare_def)
  have "NamespaceSize shareLayout + ShareInfoBytes + SequenceLenBytes
      \<le> len (rawShareData (ImportRawShare firstShare ?share))"
    by (simp add: ImportRawShare_def shareLayout_def ShareInfoBytes_def SequenceLenBytes_def)
  with first have "WriteSequenceLen shareLayout m2 (Some (ImportRawShare firstShare ?share)) 7
      = Some (None,
          store m2 (ptr (rawShareData (ImportRawShare firstShare ?share)))
            (off (rawShareData (ImportRawShare firstShare ?share))
              + (NamespaceSize shareLayout + ShareInfoBytes))
            (bigEndian32 7),
          Some (ImportRawShare firstShare ?share))"
    by (rule WriteSequenceLen_writes)
  then have writes: "WriteSequenceLen shareLayout m2 (Some (ImportRawShare firstShare ?share)) 7
      = Some (None, store m2 0 30 [0, 0, 0, 7], Some (ImportRawShare firstShare ?share))"
    by (simp add: ImportRawShare_def shareLayout_def ShareInfoBytes_def bigEndian32_def)
  have refuses: "WriteSequenceLen shareLayout m2
      (Some (ImportRawShare continuation ?share)) 7
      = Some (Some NotFirstShare, m2, Some (ImportRawShare continuation ?share))"
    using notFirst by (simp add: WriteSequenceLen_def)
  from writes refuses show ?thesis
    by (simp add: new1 new2)
qed

text \<open>
  Claim C7. On a Builder whose buffer holds at least the namespace and the info byte,
  \<open>FlipSequenceStart\<close> replaces the info byte (the byte at index \<open>NamespaceSize\<close>) by
  its XOR with \<open>0x01\<close> and changes nothing else, in the Builder or in memory: bit 0 of
  the info byte is inverted, its other bits and all other bytes and fields are kept.
  Applying it twice gives the Builder and the memory back.
\<close>

theorem FlipSequenceStart_toggles_first_share_bit:
  assumes "NamespaceSize c + ShareInfoBytes \<le> len (rawShareData b)"
  shows "FlipSequenceStart c m b =
           Some (store m (ptr (rawShareData b)) (off (rawShareData b) + NamespaceSize c)
                   [view m (rawShareData b) ! NamespaceSize c XOR 1], b)
         \<and> view (store m (ptr (rawShareData b)) (off (rawShareData b) + NamespaceSize c)
                   [view m (rawShareData b) ! NamespaceSize c XOR 1]) (rawShareData b)
             = (view m (rawShareData b))
                 [NamespaceSize c := view m (rawShareData b) ! NamespaceSize c XOR 1]
         \<and> bit (view m (rawShareData b) ! NamespaceSize c XOR 1) 0 =
             (\<not> bit (view m (rawShareData b) ! NamespaceSize c) 0)
         \<and> (\<forall>n. 0 < n \<longrightarrow>
              bit (view m (rawShareData b) ! NamespaceSize c XOR 1) n =
              bit (view m (rawShareData b) ! NamespaceSize c) n)
         \<and> Option.bind (FlipSequenceStart c m b) (\<lambda>(m', b'). FlipSequenceStart c m' b')
             = Some (m, b)"
proof -
  let ?i = "NamespaceSize c"
  let ?s = "rawShareData b"
  let ?x = "view m ?s ! ?i"
  let ?m' = "store m (ptr ?s) (off ?s + ?i) [?x XOR 1]"
  have i: "?i < len ?s"
    using assms by (simp add: ShareInfoBytes_def)
  have flip: "FlipSequenceStart c m b = Some (?m', b)"
    using i
    by (simp add: FlipSequenceStart_def indexOfInfoBytes_def Let_def getIndex_eq_view
        setIndex_eq_store)
  have content: "view ?m' ?s = (view m ?s)[?i := ?x XOR 1]"
    using i by (rule view_store_cell)
  have low: "bit (?x XOR 1) 0 = (\<not> bit ?x 0)"
    by (simp add: bit_simps)
  have high: "\<forall>n. 0 < n \<longrightarrow> bit (?x XOR 1) n = bit ?x n"
    by (simp add: bit_simps)
  have restore: "(?x XOR 1) XOR 1 = ?x"
    by (simp add: xor.assoc)
  have "view ?m' ?s ! ?i = ?x XOR 1"
    using i by (simp add: content length_view)
  then have "FlipSequenceStart c ?m' b =
      Some (store ?m' (ptr ?s) (off ?s + ?i) [(?x XOR 1) XOR 1], b)"
    using i
    by (simp add: FlipSequenceStart_def indexOfInfoBytes_def Let_def getIndex_eq_view
        setIndex_eq_store)
  also have "store ?m' (ptr ?s) (off ?s + ?i) [(?x XOR 1) XOR 1] = m"
    using i by (simp only: restore store_cell_twice) (simp add: nth_view store_cell_same)
  finally have twice: "Option.bind (FlipSequenceStart c m b)
      (\<lambda>(m', b'). FlipSequenceStart c m' b') = Some (m, b)"
    by (simp add: flip)
  from flip content low high twice show ?thesis
    by blast
qed

theorem FlipSequenceStart_toggles_first_share_bit_witness:
  "FlipSequenceStart shareLayout (store zeroMemory 0 29 [3])
     \<lparr>namespace = txNamespace, shareVersion = 0, isFirstShare = True, isCompactShare = True,
      rawShareData = \<lparr>ptr = 0, off = 0, len = 38, spare = 474\<rparr>\<rparr>
   = Some (store (store zeroMemory 0 29 [3]) 0 29 [2],
     \<lparr>namespace = txNamespace, shareVersion = 0, isFirstShare = True, isCompactShare = True,
      rawShareData = \<lparr>ptr = 0, off = 0, len = 38, spare = 474\<rparr>\<rparr>)"
proof -
  let ?m = "store zeroMemory 0 29 [3]"
  let ?b = "\<lparr>namespace = txNamespace, shareVersion = 0, isFirstShare = True,
      isCompactShare = True, rawShareData = \<lparr>ptr = 0, off = 0, len = 38, spare = 474\<rparr>\<rparr>"
  have header: "NamespaceSize shareLayout + ShareInfoBytes \<le> len (rawShareData ?b)"
    by (simp add: shareLayout_def ShareInfoBytes_def)
  have "view ?m (rawShareData ?b) ! NamespaceSize shareLayout = 3"
    by (simp add: nth_view cells_store shareLayout_def)
  then show ?thesis
    using FlipSequenceStart_toggles_first_share_bit [OF header, of ?m]
    by (simp add: shareLayout_def)
qed

subsection \<open>Padding\<close>

lemma ZeroPadIfNecessary_within:
  assumes "len (rawShareData b) \<le> ShareSize c"
  shows "ZeroPadIfNecessary c m b =
           Some (fst (appendBytes m (rawShareData b)
                        (replicate (ShareSize c - len (rawShareData b)) 0)),
                 b\<lparr>rawShareData := snd (appendBytes m (rawShareData b)
                        (replicate (ShareSize c - len (rawShareData b)) 0))\<rparr>,
                 int (ShareSize c) - int (len (rawShareData b)))"
  using assms by (simp add: ZeroPadIfNecessary_def zeroPadIfNecessary_def split_beta)

text \<open>
  Claim C8. On a Builder whose buffer is at most \<open>ShareSize\<close> long,
  \<open>ZeroPadIfNecessary\<close> appends zero bytes so that the buffer is exactly \<open>ShareSize\<close>
  long, changes no other field, and returns how many it appended; on a full buffer it
  appends none, returns 0 and leaves Builder and memory as they were. In particular, for
  a sparse share that holds a single unit (its buffer holds the header that \<open>NewBuilder\<close>
  wrote, of \<open>headerLen\<close> bytes, followed by the \<open>dataLen\<close> bytes of the unit, and is at
  most \<open>ShareSize\<close> long) the count is \<open>ShareSize - headerLen - dataLen\<close>. The header
  of a sparse share is the namespace, the info byte and, on a first share, the sequence
  length; \<open>IsEmptyShare\<close> holds of it.
\<close>

theorem ZeroPadIfNecessary_pads_to_share_size:
  "(len (rawShareData b) \<le> ShareSize c \<longrightarrow>
      (case ZeroPadIfNecessary c m b of
         None \<Rightarrow> False
       | Some (m', b', bytesOfPadding) \<Rightarrow>
           view m' (rawShareData b') =
             view m (rawShareData b) @ replicate (ShareSize c - len (rawShareData b)) 0
           \<and> len (rawShareData b') = ShareSize c
           \<and> namespace b' = namespace b \<and> shareVersion b' = shareVersion b
           \<and> isFirstShare b' = isFirstShare b \<and> isCompactShare b' = isCompactShare b
           \<and> bytesOfPadding = int (ShareSize c) - int (len (rawShareData b))
           \<and> 0 \<le> bytesOfPadding))
   \<and> (len (rawShareData b) = ShareSize c \<longrightarrow> ZeroPadIfNecessary c m b = Some (m, b, 0))
   \<and> (NewBuilder c m0 ns version first = Inr (m1, header)
        \<and> \<not> isCompactShare header
        \<and> view m (rawShareData b) = view m1 (rawShareData header) @ unit
        \<and> len (rawShareData b) \<le> ShareSize c
        \<longrightarrow> map_option (\<lambda>(m', b', bytesOfPadding). bytesOfPadding) (ZeroPadIfNecessary c m b) =
              Some (int (ShareSize c) - int (len (rawShareData header)) - int (length unit))
          \<and> len (rawShareData header) =
              length (Bytes ns) + ShareInfoBytes + (if first then SequenceLenBytes else 0)
          \<and> (length (Bytes ns) = NamespaceSize c \<longrightarrow> IsEmptyShare c header))"
proof (intro conjI impI)
  assume le: "len (rawShareData b) \<le> ShareSize c"
  then show "case ZeroPadIfNecessary c m b of
         None \<Rightarrow> False
       | Some (m', b', bytesOfPadding) \<Rightarrow>
           view m' (rawShareData b') =
             view m (rawShareData b) @ replicate (ShareSize c - len (rawShareData b)) 0
           \<and> len (rawShareData b') = ShareSize c
           \<and> namespace b' = namespace b \<and> shareVersion b' = shareVersion b
           \<and> isFirstShare b' = isFirstShare b \<and> isCompactShare b' = isCompactShare b
           \<and> bytesOfPadding = int (ShareSize c) - int (len (rawShareData b))
           \<and> 0 \<le> bytesOfPadding"
    by (simp add: ZeroPadIfNecessary_within view_appendBytes appendBytes_len)
next
  assume "len (rawShareData b) = ShareSize c"
  then show "ZeroPadIfNecessary c m b = Some (m, b, 0)"
    by (simp add: ZeroPadIfNecessary_within appendBytes_Nil)
next
  assume scenario: "NewBuilder c m0 ns version first = Inr (m1, header)
        \<and> \<not> isCompactShare header
        \<and> view m (rawShareData b) = view m1 (rawShareData header) @ unit
        \<and> len (rawShareData b) \<le> ShareSize c"
  then have new: "NewBuilder c m0 ns version first = Inr (m1, header)"
    and sparse: "\<not> isCompactShare header"
    and holds: "view m (rawShareData b) = view m1 (rawShareData header) @ unit"
    and le: "len (rawShareData b) \<le> ShareSize c"
    by blast+
  from holds have "length (view m (rawShareData b)) =
      length (view m1 (rawShareData header) @ unit)"
    by simp
  then have sum: "len (rawShareData b) = len (rawShareData header) + length unit"
    by (simp add: length_view)
  from le show "map_option (\<lambda>(m', b', bytesOfPadding). bytesOfPadding)
        (ZeroPadIfNecessary c m b) =
      Some (int (ShareSize c) - int (len (rawShareData header)) - int (length unit))"
    by (simp add: ZeroPadIfNecessary_within sum)
  from sparse have kind: "\<not> (IsTx ns \<or> IsPayForBlob ns)"
    using NewBuilder_Inr(5) [OF new] by simp
  then show headerLen: "len (rawShareData header) =
      length (Bytes ns) + ShareInfoBytes + (if first then SequenceLenBytes else 0)"
    using NewBuilder_len [OF new] by simp
  assume "length (Bytes ns) = NamespaceSize c"
  with headerLen sparse show "IsEmptyShare c header"
    using NewBuilder_Inr(4) [OF new] by (simp add: IsEmptyShare_def)
qed

theorem ZeroPadIfNecessary_pads_to_share_size_witness:
  "map_option (\<lambda>(m', b', bytesOfPadding). bytesOfPadding)
     (ZeroPadIfNecessary shareLayout
        (store (store zeroMemory 0 19 (replicate 10 7)) 0 30 [1, 2, 3, 4, 5, 6, 7, 8, 9, 10])
        \<lparr>namespace = blobNamespace, shareVersion = 0, isFirstShare = False,
         isCompactShare = False, rawShareData = \<lparr>ptr = 0, off = 0, len = 40, spare = 472\<rparr>\<rparr>)
   = Some (512 - 30 - 10)"
proof -
  let ?unit = "[1, 2, 3, 4, 5, 6, 7, 8, 9, 10] :: byte list"
  let ?m = "store (store zeroMemory 0 19 (replicate 10 7)) 0 30 ?unit"
  let ?b = "\<lparr>namespace = blobNamespace, shareVersion = 0, isFirstShare = False,
      isCompactShare = False, rawShareData = \<lparr>ptr = 0, off = 0, len = 40, spare = 472\<rparr>\<rparr>"
  have ok: "(0 :: uint8) \<le> MaxShareVersion"
    by simp
  obtain m1 header
    where new: "NewBuilder shareLayout zeroMemory blobNamespace 0 False = Inr (m1, header)"
    using NewBuilder_succeeds [OF ok] by blast
  have sparse: "\<not> isCompactShare header"
    using NewBuilder_Inr(5) [OF new] by (simp add: blobNamespace_def)
  have header: "view m1 (rawShareData header) = replicate 19 0 @ replicate 10 7 @ [0]"
    using NewBuilder_Inr(6) [OF new] by (simp add: blobNamespace_def)
  have headerLen: "len (rawShareData header) = 30"
    using NewBuilder_len [OF new] by (simp add: blobNamespace_def ShareInfoBytes_def)
  have "view ?m (rawShareData ?b) = (replicate 19 0 @ replicate 10 7 @ [0]) @ ?unit"
    by code_simp
  then have holds: "view ?m (rawShareData ?b) = view m1 (rawShareData header) @ ?unit"
    by (simp only: header)
  have le: "len (rawShareData ?b) \<le> ShareSize shareLayout"
    by (simp add: shareLayout_def)
  from new sparse holds le
    ZeroPadIfNecessary_pads_to_share_size
      [where b = ?b and c = shareLayout and m = ?m and ns = blobNamespace and version = 0
         and first = False and header = header and unit = ?unit and ?m0.0 = zeroMemory
         and ?m1.0 = m1]
  have "map_option (\<lambda>(m', b', bytesOfPadding). bytesOfPadding)
      (ZeroPadIfNecessary shareLayout ?m ?b) =
      Some (int (ShareSize shareLayout) - int (len (rawShareData header)) - int (length ?unit))"
    by blast
  then show ?thesis
    by (simp add: shareLayout_def headerLen)
qed

subsection \<open>Capacity under sequences of operations\<close>

lemma MaybeWriteReservedBytes_builder:
  assumes "MaybeWriteReservedBytes c m b = Some (e, m', b')"
  shows "b' = b"
  using assms
  by (auto simp: MaybeWriteReservedBytes_def Let_def split: if_splits option.splits sum.splits)

lemma WriteSequenceLen_builder:
  assumes "WriteSequenceLen c m (Some b) n = Some (e, m', recv)"
  shows "recv = Some b"
  using assms
  by (auto simp: WriteSequenceLen_def split: if_splits option.splits)

lemma FlipSequenceStart_builder:
  assumes "FlipSequenceStart c m b = Some (m', b')"
  shows "b' = b"
  using assms by (auto simp: FlipSequenceStart_def Let_def split: option.splits)

lemma applyOperation_keeps_capacity:
  assumes within: "len (rawShareData b) \<le> ShareSize c"
    and fits: "importFits c op"
    and step: "applyOperation c m b op = Some (m', b')"
  shows "len (rawShareData b') \<le> ShareSize c"
proof (cases op)
  case (OpAddData rawData)
  with step within show ?thesis
    by (auto simp: AddData_within appendBytes_len length_view split: if_splits)
next
  case (OpImportRawShare rawBytes)
  with step fits show ?thesis
    by (auto simp: ImportRawShare_def)
next
  case OpMaybeWriteReservedBytes
  with step obtain e where "MaybeWriteReservedBytes c m b = Some (e, m', b')"
    by auto
  then have "b' = b"
    by (rule MaybeWriteReservedBytes_builder)
  with within show ?thesis
    by simp
next
  case (OpWriteSequenceLen n)
  with step obtain e recv where call: "WriteSequenceLen c m (Some b) n = Some (e, m', recv)"
    and recv: "recv = Some b'"
    by (auto split: option.splits)
  from call have "recv = Some b"
    by (rule WriteSequenceLen_builder)
  with recv within show ?thesis
    by simp
next
  case OpFlipSequenceStart
  with step have "b' = b"
    by (simp add: FlipSequenceStart_builder)
  with within show ?thesis
    by simp
next
  case OpZeroPadIfNecessary
  with step within show ?thesis
    by (auto simp: ZeroPadIfNecessary_within appendBytes_len)
next
  case (Caller f)
  with step within show ?thesis
    by auto
qed

lemma runOperations_keeps_capacity:
  assumes "len (rawShareData b) \<le> ShareSize c"
    and "list_all (importFits c) ops"
    and "runOperations c m b ops = Some (m', b')"
  shows "len (rawShareData b') \<le> ShareSize c"
  using assms
proof (induction ops arbitrary: m b)
  case Nil
  then show ?case by simp
next
  case (Cons op ops)
  from Cons.prems(3) obtain m1 b1 where step: "applyOperation c m b op = Some (m1, b1)"
    and rest: "runOperations c m1 b1 ops = Some (m', b')"
    by (auto split: option.splits)
  from Cons.prems(1,2) step have "len (rawShareData b1) \<le> ShareSize c"
    by (auto intro: applyOperation_keeps_capacity)
  with Cons.prems(2) rest show ?case
    by (auto intro: Cons.IH)
qed

text \<open>
  Claim C1, as amended. For every Builder, \<open>AvailableBytes\<close> plus the length of the
  internal buffer is \<open>ShareSize\<close>. For a Builder that \<open>NewBuilder\<close> returned with a
  header that fits in a share, \<open>AvailableBytes\<close> is not negative after any sequence of
  Builder operations that runs without a panic, whatever the memory holds when the
  sequence starts and whatever the caller's code does to the memory between the calls,
  provided every \<open>ImportRawShare\<close> of the sequence is given at most \<open>ShareSize\<close> bytes.
  (\<open>ImportRawShare\<close> takes its argument as it is: after an import of more than
  \<open>ShareSize\<close> bytes \<open>AvailableBytes\<close> is negative.)
\<close>

theorem AvailableBytes_never_negative:
  "AvailableBytes c b + int (len (rawShareData b)) = int (ShareSize c)
   \<and> (NewBuilder c m0 ns version first = Inr (m1, header)
        \<and> len (rawShareData header) \<le> ShareSize c
        \<and> list_all (importFits c) ops
        \<and> runOperations c m header ops = Some (m', b)
        \<longrightarrow> 0 \<le> AvailableBytes c b)"
proof (intro conjI impI)
  show "AvailableBytes c b + int (len (rawShareData b)) = int (ShareSize c)"
    by (simp add: AvailableBytes_def)
next
  assume "NewBuilder c m0 ns version first = Inr (m1, header)
        \<and> len (rawShareData header) \<le> ShareSize c
        \<and> list_all (importFits c) ops
        \<and> runOperations c m header ops = Some (m', b)"
  then have "len (rawShareData b) \<le> ShareSize c"
    using runOperations_keeps_capacity [of header c ops m m' b] by blast
  then show "0 \<le> AvailableBytes c b"
    by (simp add: AvailableBytes_def)
qed

subsection \<open>The reserved bytes are written once\<close>

lemma NewReservedBytes_Inr:
  assumes "NewReservedBytes c byteIndex = Inr reservedBytes"
  shows "reservedBytes = bigEndian32 byteIndex" and "uint byteIndex < int (ShareSize c)"
  using assms by (auto simp: NewReservedBytes_def split: if_splits)

lemma ParseReservedBytes_bigEndian32:
  "ParseReservedBytes c (bigEndian32 v) =
     (if int (ShareSize c) \<le> uint v then Inl MalformedReservedBytes else Inr v)"
  by (simp add: ParseReservedBytes_def length_bigEndian32 CompactShareReservedBytes_def
      Uint32_bigEndian32)

lemma ParseReservedBytes_zero_iff:
  assumes "ParseReservedBytes c region = Inr byteIndex"
  shows "byteIndex = 0 \<longleftrightarrow> region = replicate CompactShareReservedBytes 0"
proof -
  from assms have len: "length region = 4"
    by (auto simp: ParseReservedBytes_def CompactShareReservedBytes_def split: if_splits)
  then obtain b0 b1 b2 b3 where region: "region = [b0, b1, b2, b3]"
    by (auto simp: length_Suc_conv numeral_eq_Suc)
  from assms have "Uint32 region = Some byteIndex"
    by (auto simp: ParseReservedBytes_def split: if_splits option.splits)
  then have "byteIndex = 0 \<longleftrightarrow> Uint32 [b0, b1, b2, b3] = Some 0"
    by (auto simp: region)
  also have "\<dots> \<longleftrightarrow> b0 = 0 \<and> b1 = 0 \<and> b2 = 0 \<and> b3 = 0"
    by (rule Uint32_zero_iff)
  also have "\<dots> \<longleftrightarrow> region = replicate CompactShareReservedBytes 0"
    by (auto simp: region CompactShareReservedBytes_def numeral_eq_Suc)
  finally show ?thesis .
qed

lemma ParseReservedBytes_zero_region:
  "0 < ShareSize c \<Longrightarrow> ParseReservedBytes c (replicate CompactShareReservedBytes 0) = Inr 0"
  by (simp add: ParseReservedBytes_def CompactShareReservedBytes_def numeral_eq_Suc)

lemma view_store_exact:
  assumes "ptr t = p" and "off t = j" and "len t = length xs"
  shows "view (store m p j xs) t = xs"
  using assms by (auto simp: view_def cells_store intro!: nth_equalityI)

lemma store_twice: "store (store m p j xs) p j xs = store m p j xs"
  by (rule memory_eqI) (auto simp: cells_store fresh_store growth_store)

lemma view_store_inside:
  assumes "i + length xs \<le> len s"
  shows "view (store m (ptr s) (off s + i) xs) s =
           take i (view m s) @ xs @ drop (i + length xs) (view m s)"
proof (rule nth_equalityI)
  show "length (view (store m (ptr s) (off s + i) xs) s) =
      length (take i (view m s) @ xs @ drop (i + length xs) (view m s))"
    using assms by (simp add: length_view)
next
  fix j
  assume "j < length (view (store m (ptr s) (off s + i) xs) s)"
  then have j: "j < len s"
    by (simp add: length_view)
  consider "j < i" | "i \<le> j" "j < i + length xs" | "i + length xs \<le> j"
    by linarith
  then show "view (store m (ptr s) (off s + i) xs) s ! j =
      (take i (view m s) @ xs @ drop (i + length xs) (view m s)) ! j"
  proof cases
    case 1
    with j assms show ?thesis
      by (simp add: nth_view cells_store nth_append length_view)
  next
    case 2
    then have "off s + j - (off s + i) = j - i" and "j - i < length xs"
      by simp_all
    with 2 j assms show ?thesis
      by (simp add: nth_view cells_store nth_append length_view)
  next
    case 3
    then have "i + length xs + (j - i - length xs) = j" and "\<not> j - i < length xs"
      and "\<not> j < i" and "\<not> off s + j < off s + i + length xs"
      by simp_all
    with j assms show ?thesis
      by (simp add: nth_view cells_store nth_append length_view)
  qed
qed

lemma view_region:
  assumes "sliceRange s lo hi = Some region" and "hi \<le> len s"
  shows "view m region = take (hi - lo) (drop lo (view m s))"
  using assms
  by (auto simp: sliceRange_def view_def take_map drop_map add.assoc split: if_splits
      intro!: nth_equalityI)

lemma MaybeWriteReservedBytes_eq:
  assumes compact: "isCompactShare b"
    and region: "sliceRange (rawShareData b) (indexOfReservedBytes c b)
                   (indexOfReservedBytes c b + CompactShareReservedBytes) = Some region"
  shows "MaybeWriteReservedBytes c m b =
     (case ParseReservedBytes c (view m region) of
        Inl err \<Rightarrow> Some (Some err, m, b)
      | Inr byteIndex \<Rightarrow>
          if byteIndex \<noteq> 0 then Some (None, m, b)
          else (case NewReservedBytes c (of_nat (len (rawShareData b))) of
                  Inl err \<Rightarrow> Some (Some err, m, b)
                | Inr reservedBytes \<Rightarrow>
                    if indexOfReservedBytes c b + CompactShareReservedBytes
                         \<le> len (rawShareData b)
                    then Some (None,
                           store m (ptr (rawShareData b))
                             (off (rawShareData b) + indexOfReservedBytes c b) reservedBytes,
                           b)
                    else None))"
proof -
  let ?i = "indexOfReservedBytes c b"
  let ?s = "rawShareData b"
  have isEmpty: "isEmptyReservedBytes c m b =
      (case ParseReservedBytes c (view m region) of
         Inl err \<Rightarrow> Some (Inl err)
       | Inr byteIndex \<Rightarrow> Some (Inr (byteIndex = 0)))"
    using region by (simp add: isEmptyReservedBytes_def Let_def)
  have copy: "copyInto m ?s ?i reservedBytes [0..<CompactShareReservedBytes] =
      (if ?i + CompactShareReservedBytes \<le> len ?s
       then Some (store m (ptr ?s) (off ?s + ?i) reservedBytes) else None)"
    if "NewReservedBytes c (of_nat (len ?s)) = Inr reservedBytes" for reservedBytes
  proof -
    have width: "length reservedBytes = CompactShareReservedBytes"
      by (simp add: NewReservedBytes_Inr(1) [OF that] length_bigEndian32
          CompactShareReservedBytes_def)
    then have "take CompactShareReservedBytes reservedBytes = reservedBytes"
      by simp
    moreover have "CompactShareReservedBytes \<noteq> 0"
      by (simp add: CompactShareReservedBytes_def)
    moreover have "CompactShareReservedBytes \<le> length reservedBytes"
      by (simp add: width)
    ultimately show ?thesis
      by (simp add: copyInto_upt)
  qed
  show ?thesis
    using compact
    by (auto simp: MaybeWriteReservedBytes_def isEmpty Let_def copy split: sum.splits)
qed

lemma MaybeWriteReservedBytes_out_of_capacity:
  assumes "isCompactShare b"
    and "cap (rawShareData b) < indexOfReservedBytes c b + CompactShareReservedBytes"
  shows "MaybeWriteReservedBytes c m b = None"
  using assms
  by (simp add: MaybeWriteReservedBytes_def isEmptyReservedBytes_def sliceRange_def Let_def)

lemma MaybeWriteReservedBytes_no_op:
  assumes "isCompactShare b"
    and "sliceRange (rawShareData b) (indexOfReservedBytes c b)
           (indexOfReservedBytes c b + CompactShareReservedBytes) = Some region"
    and "ParseReservedBytes c (view m region) = Inr byteIndex" and "byteIndex \<noteq> 0"
  shows "MaybeWriteReservedBytes c m b = Some (None, m, b)"
  using assms(3,4) by (simp add: MaybeWriteReservedBytes_eq [OF assms(1,2)])

lemma MaybeWriteReservedBytes_writes:
  assumes "isCompactShare b"
    and "sliceRange (rawShareData b) (indexOfReservedBytes c b)
           (indexOfReservedBytes c b + CompactShareReservedBytes) = Some region"
    and "ParseReservedBytes c (view m region) = Inr 0"
    and "NewReservedBytes c (of_nat (len (rawShareData b))) = Inr reservedBytes"
    and "indexOfReservedBytes c b + CompactShareReservedBytes \<le> len (rawShareData b)"
  shows "MaybeWriteReservedBytes c m b =
           Some (None,
                 store m (ptr (rawShareData b))
                   (off (rawShareData b) + indexOfReservedBytes c b) reservedBytes,
                 b)"
  using assms(3,4,5) by (simp add: MaybeWriteReservedBytes_eq [OF assms(1,2)])

lemma MaybeWriteReservedBytes_in_range:
  assumes "isCompactShare b" and "MaybeWriteReservedBytes c m b = Some r"
  shows "\<exists>region. sliceRange (rawShareData b) (indexOfReservedBytes c b)
                    (indexOfReservedBytes c b + CompactShareReservedBytes) = Some region"
  using assms
  by (auto simp: MaybeWriteReservedBytes_def isEmptyReservedBytes_def Let_def
      split: option.splits)

lemma MaybeWriteReservedBytes_idempotent:
  assumes "MaybeWriteReservedBytes c m b = Some (e, m', b')"
  shows "MaybeWriteReservedBytes c m' b' = Some (e, m', b')"
proof (cases "isCompactShare b")
  case False
  with assms show ?thesis
    by (auto simp: MaybeWriteReservedBytes_def)
next
  case True
  let ?i = "indexOfReservedBytes c b"
  let ?s = "rawShareData b"
  let ?n = "CompactShareReservedBytes"
  from True assms obtain region where region: "sliceRange ?s ?i (?i + ?n) = Some region"
    using MaybeWriteReservedBytes_in_range by blast
  note eq = MaybeWriteReservedBytes_eq [OF True region]
  show ?thesis
  proof (cases "ParseReservedBytes c (view m region)")
    case (Inl err)
    with eq assms have "e = Some err \<and> m' = m \<and> b' = b" by simp
    with assms show ?thesis by simp
  next
    case (Inr byteIndex)
    show ?thesis
    proof (cases "byteIndex = 0")
      case False
      with eq Inr assms have "e = None \<and> m' = m \<and> b' = b" by simp
      with assms show ?thesis by simp
    next
      case zero: True
      show ?thesis
      proof (cases "NewReservedBytes c (of_nat (len ?s))")
        case (Inl err)
        with eq Inr zero assms have "e = Some err \<and> m' = m \<and> b' = b" by simp
        with assms show ?thesis by simp
      next
        case new: (Inr reservedBytes)
        let ?w = "of_nat (len ?s) :: uint32"
        let ?m' = "store m (ptr ?s) (off ?s + ?i) reservedBytes"
        from new have rb: "reservedBytes = bigEndian32 ?w"
          and below: "uint ?w < int (ShareSize c)"
          by (rule NewReservedBytes_Inr)+
        have width: "length reservedBytes = ?n"
          by (simp add: rb length_bigEndian32 CompactShareReservedBytes_def)
        from eq Inr zero new assms have inside: "?i + ?n \<le> len ?s"
          by (simp split: if_splits)
        with eq Inr zero new assms have r: "e = None" "m' = ?m'" "b' = b"
          by auto
        have "ptr region = ptr ?s" and "off region = off ?s + ?i" and "len region = ?n"
          using region by (auto simp: sliceRange_def split: if_splits)
        then have "view ?m' region = reservedBytes"
          by (intro view_store_exact) (simp_all add: width)
        then have parse': "ParseReservedBytes c (view ?m' region) = Inr ?w"
          using below by (simp add: rb ParseReservedBytes_bigEndian32)
        have "MaybeWriteReservedBytes c ?m' b = Some (None, ?m', b)"
        proof (cases "?w = 0")
          case False
          with True region parse' show ?thesis
            by (rule MaybeWriteReservedBytes_no_op)
        next
          case True
          with parse' have parse0: "ParseReservedBytes c (view ?m' region) = Inr 0"
            by simp
          have "MaybeWriteReservedBytes c ?m' b =
              Some (None, store ?m' (ptr ?s) (off ?s + ?i) reservedBytes, b)"
            using \<open>isCompactShare b\<close> region parse0 new inside
            by (rule MaybeWriteReservedBytes_writes)
          then show ?thesis
            by (simp only: store_twice)
        qed
        then show ?thesis
          by (simp add: r)
      qed
    qed
  qed
qed

lemma AddData_appended:
  assumes "AddData c m b rawData = Some (m', b', leftover)"
  shows "\<exists>xs. m' = fst (appendBytes m (rawShareData b) xs)
              \<and> b' = b\<lparr>rawShareData := snd (appendBytes m (rawShareData b) xs)\<rparr>"
  using assms
  by (auto simp: AddData_def Let_def split_beta split: if_splits option.splits)

lemma MaybeWriteReservedBytes_after_AddData:
  assumes compact: "isCompactShare b"
    and region: "sliceRange (rawShareData b) (indexOfReservedBytes c b)
                   (indexOfReservedBytes c b + CompactShareReservedBytes) = Some region"
    and inside: "indexOfReservedBytes c b + CompactShareReservedBytes \<le> len (rawShareData b)"
    and parse: "ParseReservedBytes c (view m region) = Inr byteIndex"
    and nonzero: "byteIndex \<noteq> 0"
    and add: "AddData c m b rawData = Some (m', b', leftover)"
  shows "MaybeWriteReservedBytes c m' b' = Some (None, m', b')"
proof -
  let ?i = "indexOfReservedBytes c b"
  let ?n = "CompactShareReservedBytes"
  from add obtain xs where m': "m' = fst (appendBytes m (rawShareData b) xs)"
    and b': "b' = b\<lparr>rawShareData := snd (appendBytes m (rawShareData b) xs)\<rparr>"
    using AddData_appended by blast
  have compact': "isCompactShare b'"
    using compact by (simp add: b')
  have index': "indexOfReservedBytes c b' = ?i"
    by (simp add: b' indexOfReservedBytes_def)
  have len': "len (rawShareData b') = len (rawShareData b) + length xs"
    by (simp add: b' appendBytes_len)
  then have "?i + ?n \<le> cap (rawShareData b')"
    using inside by (simp add: cap_def)
  then obtain region' where region': "sliceRange (rawShareData b') ?i (?i + ?n) = Some region'"
    by (simp add: sliceRange_def)
  have content: "view m' (rawShareData b') = view m (rawShareData b) @ xs"
    by (simp add: m' b' view_appendBytes)
  have "view m' region' = take (?i + ?n - ?i) (drop ?i (view m' (rawShareData b')))"
    using region' inside len' by (intro view_region) simp_all
  also have "\<dots> = take (?i + ?n - ?i) (drop ?i (view m (rawShareData b)))"
    using inside by (simp add: content length_view)
  also have "\<dots> = view m region"
    using region inside by (rule view_region [symmetric])
  finally have same: "view m' region' = view m region" .
  from region' have "sliceRange (rawShareData b') (indexOfReservedBytes c b')
      (indexOfReservedBytes c b' + ?n) = Some region'"
    by (simp only: index')
  moreover from parse have "ParseReservedBytes c (view m' region') = Inr byteIndex"
    by (simp only: same)
  ultimately show ?thesis
    using compact' nonzero by (intro MaybeWriteReservedBytes_no_op)
qed

text \<open>
  Claim C3, as amended. Calling \<open>MaybeWriteReservedBytes\<close> twice in a row is
  equivalent to calling it once: whenever a call returns, a second call right after it
  returns the same and leaves memory and Builder as the first left them. The region
  decodes when its big-endian value is below \<open>ShareSize\<close>; it decodes to 0 exactly when
  it decodes and is zero. On a compact Builder, with \<open>n\<close> the buffer length converted to
  \<^verbatim>\<open>uint32\<close> (the length modulo \<open>2 ^ 32\<close>, which is the length itself below
  \<open>2 ^ 32\<close>), the call does the following.

  \<^item> It panics when the capacity of the buffer ends before the reserved-bytes region.
    Otherwise it reads the region, from the buffer's array also beyond the buffer's
    length.
  \<^item> When the region decodes to a non-zero offset, the call returns success and changes
    nothing.
  \<^item> When the region does not decode, the call returns \<open>MalformedReservedBytes\<close> and
    changes nothing.
  \<^item> When the region decodes to 0 and \<open>n\<close> is not below \<open>ShareSize\<close>, the call returns
    the error of \<open>NewReservedBytes\<close> and changes nothing.
  \<^item> When the region decodes to 0, \<open>n\<close> is below \<open>ShareSize\<close> and the region lies
    within the length of the buffer, the call returns success and replaces the region by
    the big-endian bytes of \<open>n\<close>, keeping every other byte and field; the region then
    decodes to \<open>n\<close>. When the region does not lie within the length, the call panics.
  \<^item> Once a region within the length decodes to a non-zero offset it stays: after
    \<open>AddData\<close> has made the buffer longer, a further call is again a successful no-op,
    so the recorded offset is that of the state-changing call only.
\<close>

theorem MaybeWriteReservedBytes_write_once:
  "(\<forall>e m' b'. MaybeWriteReservedBytes c m b = Some (e, m', b') \<longrightarrow>
      MaybeWriteReservedBytes c m' b' = Some (e, m', b'))
   \<and> (isCompactShare b \<longrightarrow>
        (cap (rawShareData b) < indexOfReservedBytes c b + CompactShareReservedBytes \<longrightarrow>
           MaybeWriteReservedBytes c m b = None)
        \<and> (\<forall>region.
             sliceRange (rawShareData b) (indexOfReservedBytes c b)
               (indexOfReservedBytes c b + CompactShareReservedBytes) = Some region \<longrightarrow>
             (\<forall>byteIndex. ParseReservedBytes c (view m region) = Inr byteIndex \<longrightarrow>
                (byteIndex \<noteq> 0) = (view m region \<noteq> replicate CompactShareReservedBytes 0)
                \<and> (byteIndex \<noteq> 0 \<longrightarrow> MaybeWriteReservedBytes c m b = Some (None, m, b)))
             \<and> (\<forall>err. ParseReservedBytes c (view m region) = Inl err \<longrightarrow>
                  err = MalformedReservedBytes
                  \<and> MaybeWriteReservedBytes c m b = Some (Some err, m, b))
             \<and> (view m region = replicate CompactShareReservedBytes 0 \<and> 0 < ShareSize c \<longrightarrow>
                  ParseReservedBytes c (view m region) = Inr 0)
             \<and> (ParseReservedBytes c (view m region) = Inr 0
                  \<and> int (ShareSize c) \<le> uint (of_nat (len (rawShareData b)) :: uint32) \<longrightarrow>
                  MaybeWriteReservedBytes c m b = Some (Some ByteIndexOutOfRange, m, b))
             \<and> (ParseReservedBytes c (view m region) = Inr 0
                  \<and> uint (of_nat (len (rawShareData b)) :: uint32) < int (ShareSize c)
                  \<and> indexOfReservedBytes c b + CompactShareReservedBytes
                      \<le> len (rawShareData b) \<longrightarrow>
                  MaybeWriteReservedBytes c m b =
                    Some (None,
                      store m (ptr (rawShareData b))
                        (off (rawShareData b) + indexOfReservedBytes c b)
                        (bigEndian32 (of_nat (len (rawShareData b)))),
                      b)
                  \<and> view (store m (ptr (rawShareData b))
                            (off (rawShareData b) + indexOfReservedBytes c b)
                            (bigEndian32 (of_nat (len (rawShareData b))))) (rawShareData b)
                      = take (indexOfReservedBytes c b) (view m (rawShareData b))
                        @ bigEndian32 (of_nat (len (rawShareData b)))
                        @ drop (indexOfReservedBytes c b + CompactShareReservedBytes)
                            (view m (rawShareData b))
                  \<and> ParseReservedBytes c (bigEndian32 (of_nat (len (rawShareData b))))
                      = Inr (of_nat (len (rawShareData b)))
                  \<and> (len (rawShareData b) < 2 ^ 32 \<longrightarrow>
                       unat (of_nat (len (rawShareData b)) :: uint32) = len (rawShareData b)))
             \<and> (ParseReservedBytes c (view m region) = Inr 0
                  \<and> uint (of_nat (len (rawShareData b)) :: uint32) < int (ShareSize c)
                  \<and> len (rawShareData b)
                      < indexOfReservedBytes c b + CompactShareReservedBytes \<longrightarrow>
                  MaybeWriteReservedBytes c m b = None)
             \<and> (\<forall>byteIndex rawData m' b' leftover.
                  indexOfReservedBytes c b + CompactShareReservedBytes \<le> len (rawShareData b)
                  \<and> ParseReservedBytes c (view m region) = Inr byteIndex \<and> byteIndex \<noteq> 0
                  \<and> AddData c m b rawData = Some (m', b', leftover) \<longrightarrow>
                  MaybeWriteReservedBytes c m' b' = Some (None, m', b'))))"
proof (intro conjI impI allI)
  fix e m' b'
  assume "MaybeWriteReservedBytes c m b = Some (e, m', b')"
  then show "MaybeWriteReservedBytes c m' b' = Some (e, m', b')"
    by (rule MaybeWriteReservedBytes_idempotent)
next
  assume "isCompactShare b"
    and "cap (rawShareData b) < indexOfReservedBytes c b + CompactShareReservedBytes"
  then show "MaybeWriteReservedBytes c m b = None"
    by (rule MaybeWriteReservedBytes_out_of_capacity)
next
  fix region byteIndex
  assume compact: "isCompactShare b"
    and region: "sliceRange (rawShareData b) (indexOfReservedBytes c b)
        (indexOfReservedBytes c b + CompactShareReservedBytes) = Some region"
    and parse: "ParseReservedBytes c (view m region) = Inr byteIndex"
  from parse show "(byteIndex \<noteq> 0) = (view m region \<noteq> replicate CompactShareReservedBytes 0)"
    by (simp add: ParseReservedBytes_zero_iff)
  assume "byteIndex \<noteq> 0"
  with compact region parse show "MaybeWriteReservedBytes c m b = Some (None, m, b)"
    by (rule MaybeWriteReservedBytes_no_op)
next
  fix region err
  assume compact: "isCompactShare b"
    and region: "sliceRange (rawShareData b) (indexOfReservedBytes c b)
        (indexOfReservedBytes c b + CompactShareReservedBytes) = Some region"
    and parse: "ParseReservedBytes c (view m region) = Inl err"
  from parse show "err = MalformedReservedBytes"
    by (auto simp: ParseReservedBytes_def split: if_splits option.splits)
  from parse show "MaybeWriteReservedBytes c m b = Some (Some err, m, b)"
    by (simp add: MaybeWriteReservedBytes_eq [OF compact region])
next
  fix region
  assume "view m region = replicate CompactShareReservedBytes 0 \<and> 0 < ShareSize c"
  then show "ParseReservedBytes c (view m region) = Inr 0"
    by (simp add: ParseReservedBytes_zero_region)
next
  fix region
  assume compact: "isCompactShare b"
    and region: "sliceRange (rawShareData b) (indexOfReservedBytes c b)
        (indexOfReservedBytes c b + CompactShareReservedBytes) = Some region"
    and "ParseReservedBytes c (view m region) = Inr 0
        \<and> int (ShareSize c) \<le> uint (of_nat (len (rawShareData b)) :: uint32)"
  then show "MaybeWriteReservedBytes c m b = Some (Some ByteIndexOutOfRange, m, b)"
    by (simp add: MaybeWriteReservedBytes_eq [OF compact region] NewReservedBytes_def)
next
  fix region
  let ?w = "of_nat (len (rawShareData b)) :: uint32"
  assume compact: "isCompactShare b"
    and region: "sliceRange (rawShareData b) (indexOfReservedBytes c b)
        (indexOfReservedBytes c b + CompactShareReservedBytes) = Some region"
    and writes: "ParseReservedBytes c (view m region) = Inr 0
        \<and> uint ?w < int (ShareSize c)
        \<and> indexOfReservedBytes c b + CompactShareReservedBytes \<le> len (rawShareData b)"
  then have parse: "ParseReservedBytes c (view m region) = Inr 0"
    and below: "uint ?w < int (ShareSize c)"
    and inside: "indexOfReservedBytes c b + CompactShareReservedBytes \<le> len (rawShareData b)"
    by blast+
  from below have new: "NewReservedBytes c ?w = Inr (bigEndian32 ?w)"
    by (simp add: NewReservedBytes_def)
  from compact region parse new inside
  show "MaybeWriteReservedBytes c m b =
      Some (None,
        store m (ptr (rawShareData b)) (off (rawShareData b) + indexOfReservedBytes c b)
          (bigEndian32 ?w), b)"
    by (rule MaybeWriteReservedBytes_writes)
  from inside have "indexOfReservedBytes c b + length (bigEndian32 ?w) \<le> len (rawShareData b)"
    by (simp add: length_bigEndian32 CompactShareReservedBytes_def)
  then have "view (store m (ptr (rawShareData b))
        (off (rawShareData b) + indexOfReservedBytes c b) (bigEndian32 ?w)) (rawShareData b)
      = take (indexOfReservedBytes c b) (view m (rawShareData b)) @ bigEndian32 ?w
        @ drop (indexOfReservedBytes c b + length (bigEndian32 ?w)) (view m (rawShareData b))"
    by (rule view_store_inside)
  then show "view (store m (ptr (rawShareData b))
        (off (rawShareData b) + indexOfReservedBytes c b) (bigEndian32 ?w)) (rawShareData b)
      = take (indexOfReservedBytes c b) (view m (rawShareData b)) @ bigEndian32 ?w
        @ drop (indexOfReservedBytes c b + CompactShareReservedBytes) (view m (rawShareData b))"
    by (simp only: length_bigEndian32 CompactShareReservedBytes_def)
  from below show "ParseReservedBytes c (bigEndian32 ?w) = Inr ?w"
    by (simp add: ParseReservedBytes_bigEndian32)
  assume "len (rawShareData b) < 2 ^ 32"
  then show "unat ?w = len (rawShareData b)"
    by (simp add: unat_of_nat)
next
  fix region
  assume compact: "isCompactShare b"
    and region: "sliceRange (rawShareData b) (indexOfReservedBytes c b)
        (indexOfReservedBytes c b + CompactShareReservedBytes) = Some region"
    and "ParseReservedBytes c (view m region) = Inr 0
        \<and> uint (of_nat (len (rawShareData b)) :: uint32) < int (ShareSize c)
        \<and> len (rawShareData b) < indexOfReservedBytes c b + CompactShareReservedBytes"
  then show "MaybeWriteReservedBytes c m b = None"
    by (simp add: MaybeWriteReservedBytes_eq [OF compact region] NewReservedBytes_def)
next
  fix region byteIndex rawData m' b' leftover
  assume compact: "isCompactShare b"
    and region: "sliceRange (rawShareData b) (indexOfReservedBytes c b)
        (indexOfReservedBytes c b + CompactShareReservedBytes) = Some region"
    and "indexOfReservedBytes c b + CompactShareReservedBytes \<le> len (rawShareData b)
        \<and> ParseReservedBytes c (view m region) = Inr byteIndex \<and> byteIndex \<noteq> 0
        \<and> AddData c m b rawData = Some (m', b', leftover)"
  then show "MaybeWriteReservedBytes c m' b' = Some (None, m', b')"
    using MaybeWriteReservedBytes_after_AddData [OF compact region] by blast
qed

lemma indexOfReservedBytes_continuation:
  "\<not> isFirstShare b \<Longrightarrow> indexOfReservedBytes shareLayout b = 30"
  by (simp add: indexOfReservedBytes_def shareLayout_def ShareInfoBytes_def)

theorem MaybeWriteReservedBytes_write_once_witness:
  "MaybeWriteReservedBytes shareLayout zeroMemory
     \<lparr>namespace = txNamespace, shareVersion = 0, isFirstShare = False, isCompactShare = True,
      rawShareData = \<lparr>ptr = 0, off = 0, len = 44, spare = 468\<rparr>\<rparr>
   = Some (None, store zeroMemory 0 30 [0, 0, 0, 44],
       \<lparr>namespace = txNamespace, shareVersion = 0, isFirstShare = False, isCompactShare = True,
        rawShareData = \<lparr>ptr = 0, off = 0, len = 44, spare = 468\<rparr>\<rparr>)
   \<and> MaybeWriteReservedBytes shareLayout (store zeroMemory 0 30 [0, 0, 0, 44])
     \<lparr>namespace = txNamespace, shareVersion = 0, isFirstShare = False, isCompactShare = True,
      rawShareData = \<lparr>ptr = 0, off = 0, len = 44, spare = 468\<rparr>\<rparr>
   = Some (None, store zeroMemory 0 30 [0, 0, 0, 44],
       \<lparr>namespace = txNamespace, shareVersion = 0, isFirstShare = False, isCompactShare = True,
        rawShareData = \<lparr>ptr = 0, off = 0, len = 44, spare = 468\<rparr>\<rparr>)"
proof -
  let ?b = "\<lparr>namespace = txNamespace, shareVersion = 0, isFirstShare = False,
      isCompactShare = True, rawShareData = \<lparr>ptr = 0, off = 0, len = 44, spare = 468\<rparr>\<rparr>"
  let ?region = "\<lparr>ptr = 0, off = 30, len = 4, spare = 478\<rparr>"
  let ?m' = "store zeroMemory 0 30 [0, 0, 0, 44]"
  have index: "indexOfReservedBytes shareLayout ?b = 30"
    by (simp add: indexOfReservedBytes_continuation)
  have compact: "isCompactShare ?b"
    by simp
  have region: "sliceRange (rawShareData ?b) (indexOfReservedBytes shareLayout ?b)
      (indexOfReservedBytes shareLayout ?b + CompactShareReservedBytes) = Some ?region"
    by (simp add: index sliceRange_def cap_def CompactShareReservedBytes_def)
  have "view zeroMemory ?region = [0, 0, 0, 0]"
    by (simp add: view_def zeroMemory_def upt_conv_Cons)
  then have parse: "ParseReservedBytes shareLayout (view zeroMemory ?region) = Inr 0"
    by (simp add: ParseReservedBytes_def CompactShareReservedBytes_def shareLayout_def)
  have below: "uint (of_nat (len (rawShareData ?b)) :: uint32) < int (ShareSize shareLayout)"
    by (simp add: shareLayout_def)
  have inside: "indexOfReservedBytes shareLayout ?b + CompactShareReservedBytes
      \<le> len (rawShareData ?b)"
    by (simp add: index CompactShareReservedBytes_def)
  have encoded: "bigEndian32 (of_nat (len (rawShareData ?b))) = [0, 0, 0, 44]"
    by (simp add: bigEndian32_def)
  note once = MaybeWriteReservedBytes_write_once [of shareLayout zeroMemory ?b]
  from once compact region parse below inside
  have "MaybeWriteReservedBytes shareLayout zeroMemory ?b =
      Some (None,
        store zeroMemory (ptr (rawShareData ?b))
          (off (rawShareData ?b) + indexOfReservedBytes shareLayout ?b)
          (bigEndian32 (of_nat (len (rawShareData ?b)))), ?b)"
    by blast
  then have first: "MaybeWriteReservedBytes shareLayout zeroMemory ?b = Some (None, ?m', ?b)"
    by (simp only: encoded index) simp
  from once have "\<forall>e m' b'. MaybeWriteReservedBytes shareLayout zeroMemory ?b = Some (e, m', b')
      \<longrightarrow> MaybeWriteReservedBytes shareLayout m' b' = Some (e, m', b')"
    by blast
  with first have "MaybeWriteReservedBytes shareLayout ?m' ?b = Some (None, ?m', ?b)"
    by blast
  with first show ?thesis
    by blast
qed

text \<open>
  The claim as it was written fails in each of its parts, on Builders as \<open>NewBuilder\<close>
  makes them for the transaction namespace and a continuation share, after an import.
  A region that is not zero but holds no offset within the share (\<open>0xFFFFFFFF\<close>) makes
  the call return an error, not success. A zero region in a full buffer of 512 bytes is
  not written: the call returns the error of \<open>NewReservedBytes\<close>. On a buffer of 10
  bytes and capacity 10 the call panics. And in a buffer of \<open>2 ^ 32 + 100\<close> bytes the
  call records the offset 100, not the buffer length.
\<close>

theorem MaybeWriteReservedBytes_write_once_counterexample:
  "MaybeWriteReservedBytes shareLayout (store zeroMemory 0 30 [255, 255, 255, 255])
     \<lparr>namespace = txNamespace, shareVersion = 0, isFirstShare = False, isCompactShare = True,
      rawShareData = \<lparr>ptr = 0, off = 0, len = 512, spare = 0\<rparr>\<rparr>
   = Some (Some MalformedReservedBytes, store zeroMemory 0 30 [255, 255, 255, 255],
       \<lparr>namespace = txNamespace, shareVersion = 0, isFirstShare = False, isCompactShare = True,
        rawShareData = \<lparr>ptr = 0, off = 0, len = 512, spare = 0\<rparr>\<rparr>)
   \<and> MaybeWriteReservedBytes shareLayout zeroMemory
     \<lparr>namespace = txNamespace, shareVersion = 0, isFirstShare = False, isCompactShare = True,
      rawShareData = \<lparr>ptr = 0, off = 0, len = 512, spare = 0\<rparr>\<rparr>
   = Some (Some ByteIndexOutOfRange, zeroMemory,
       \<lparr>namespace = txNamespace, shareVersion = 0, isFirstShare = False, isCompactShare = True,
        rawShareData = \<lparr>ptr = 0, off = 0, len = 512, spare = 0\<rparr>\<rparr>)
   \<and> MaybeWriteReservedBytes shareLayout zeroMemory
     \<lparr>namespace = txNamespace, shareVersion = 0, isFirstShare = False, isCompactShare = True,
      rawShareData = \<lparr>ptr = 0, off = 0, len = 10, spare = 0\<rparr>\<rparr>
   = None
   \<and> MaybeWriteReservedBytes shareLayout zeroMemory
     \<lparr>namespace = txNamespace, shareVersion = 0, isFirstShare = False, isCompactShare = True,
      rawShareData = \<lparr>ptr = 0, off = 0, len = 4294967396, spare = 0\<rparr>\<rparr>
   = Some (None, store zeroMemory 0 30 [0, 0, 0, 100],
       \<lparr>namespace = txNamespace, shareVersion = 0, isFirstShare = False, isCompactShare = True,
        rawShareData = \<lparr>ptr = 0, off = 0, len = 4294967396, spare = 0\<rparr>\<rparr>)"
proof -
  let ?full = "\<lparr>namespace = txNamespace, shareVersion = 0, isFirstShare = False,
      isCompactShare = True, rawShareData = \<lparr>ptr = 0, off = 0, len = 512, spare = 0\<rparr>\<rparr>"
  let ?short = "\<lparr>namespace = txNamespace, shareVersion = 0, isFirstShare = False,
      isCompactShare = True, rawShareData = \<lparr>ptr = 0, off = 0, len = 10, spare = 0\<rparr>\<rparr>"
  let ?huge = "\<lparr>namespace = txNamespace, shareVersion = 0, isFirstShare = False,
      isCompactShare = True,
      rawShareData = \<lparr>ptr = 0, off = 0, len = 4294967396, spare = 0\<rparr>\<rparr>"
  let ?corrupt = "store zeroMemory 0 30 [255, 255, 255, 255]"
  let ?region = "\<lparr>ptr = 0, off = 30, len = 4, spare = 478\<rparr>"
  let ?hugeRegion = "\<lparr>ptr = 0, off = 30, len = 4, spare = 4294967362\<rparr>"
  have region: "sliceRange (rawShareData ?full) (indexOfReservedBytes shareLayout ?full)
      (indexOfReservedBytes shareLayout ?full + CompactShareReservedBytes) = Some ?region"
    by (simp add: indexOfReservedBytes_continuation sliceRange_def cap_def
        CompactShareReservedBytes_def)
  have hugeRegion: "sliceRange (rawShareData ?huge) (indexOfReservedBytes shareLayout ?huge)
      (indexOfReservedBytes shareLayout ?huge + CompactShareReservedBytes) = Some ?hugeRegion"
    by (simp add: indexOfReservedBytes_continuation sliceRange_def cap_def
        CompactShareReservedBytes_def)
  have "view ?corrupt ?region = [255, 255, 255, 255]"
    by (simp add: view_def cells_store upt_conv_Cons)
  then have "ParseReservedBytes shareLayout (view ?corrupt ?region) = Inl MalformedReservedBytes"
    by (simp add: ParseReservedBytes_def CompactShareReservedBytes_def shareLayout_def)
  then have first: "MaybeWriteReservedBytes shareLayout ?corrupt ?full =
      Some (Some MalformedReservedBytes, ?corrupt, ?full)"
    by (simp add: MaybeWriteReservedBytes_eq [OF _ region])
  have "view zeroMemory ?region = [0, 0, 0, 0]"
    by (simp add: view_def zeroMemory_def upt_conv_Cons)
  then have "ParseReservedBytes shareLayout (view zeroMemory ?region) = Inr 0"
    by (simp add: ParseReservedBytes_def CompactShareReservedBytes_def shareLayout_def)
  moreover have "NewReservedBytes shareLayout (of_nat (len (rawShareData ?full)))
      = Inl ByteIndexOutOfRange"
    by (simp add: NewReservedBytes_def shareLayout_def)
  ultimately have second: "MaybeWriteReservedBytes shareLayout zeroMemory ?full =
      Some (Some ByteIndexOutOfRange, zeroMemory, ?full)"
    by (simp add: MaybeWriteReservedBytes_eq [OF _ region])
  have "cap (rawShareData ?short)
      < indexOfReservedBytes shareLayout ?short + CompactShareReservedBytes"
    by (simp add: indexOfReservedBytes_continuation cap_def CompactShareReservedBytes_def)
  then have third: "MaybeWriteReservedBytes shareLayout zeroMemory ?short = None"
    by (intro MaybeWriteReservedBytes_out_of_capacity) simp_all
  have "view zeroMemory ?hugeRegion = [0, 0, 0, 0]"
    by (simp add: view_def zeroMemory_def upt_conv_Cons)
  then have parse: "ParseReservedBytes shareLayout (view zeroMemory ?hugeRegion) = Inr 0"
    by (simp add: ParseReservedBytes_def CompactShareReservedBytes_def shareLayout_def)
  have wraps: "(of_nat (len (rawShareData ?huge)) :: uint32) = 100"
    by simp
  have new: "NewReservedBytes shareLayout (of_nat (len (rawShareData ?huge)))
      = Inr [0, 0, 0, 100]"
    by (simp only: wraps) (simp add: NewReservedBytes_def shareLayout_def bigEndian32_def)
  have inside: "indexOfReservedBytes shareLayout ?huge + CompactShareReservedBytes
      \<le> len (rawShareData ?huge)"
    by (simp add: indexOfReservedBytes_continuation CompactShareReservedBytes_def)
  have "MaybeWriteReservedBytes shareLayout zeroMemory ?huge =
      Some (None,
        store zeroMemory (ptr (rawShareData ?huge))
          (off (rawShareData ?huge) + indexOfReservedBytes shareLayout ?huge) [0, 0, 0, 100],
        ?huge)"
    using _ hugeRegion parse new inside by (rule MaybeWriteReservedBytes_writes) simp
  then have fourth: "MaybeWriteReservedBytes shareLayout zeroMemory ?huge =
      Some (None, store zeroMemory 0 30 [0, 0, 0, 100], ?huge)"
    by (simp add: indexOfReservedBytes_continuation)
  from first second third fourth show ?thesis
    by blast
qed

subsection \<open>Runs of the concrete layout\<close>

theorem AvailableBytes_never_negative_witness:
  "case NewBuilder shareLayout zeroMemory txNamespace 0 False of
     Inl err \<Rightarrow> False
   | Inr (m1, header) \<Rightarrow>
       (case runOperations shareLayout m1 header
               [Caller (\<lambda>m. store m 0 30 [0, 0, 0, 44]),
                OpImportRawShare \<lparr>ptr = 0, off = 0, len = 10, spare = 502\<rparr>,
                OpMaybeWriteReservedBytes,
                OpAddData \<lparr>ptr = 5, off = 0, len = 600, spare = 0\<rparr>] of
          None \<Rightarrow> False
        | Some (m', b) \<Rightarrow> 0 \<le> AvailableBytes shareLayout b)"
proof -
  let ?ops = "[Caller (\<lambda>m. store m 0 30 [0, 0, 0, 44]),
      OpImportRawShare \<lparr>ptr = 0, off = 0, len = 10, spare = 502\<rparr>,
      OpMaybeWriteReservedBytes,
      OpAddData \<lparr>ptr = 5, off = 0, len = 600, spare = 0\<rparr>]"
  let ?share = "\<lparr>ptr = 0, off = 0, len = 10, spare = 502\<rparr>"
  let ?region = "\<lparr>ptr = 0, off = 30, len = 4, spare = 478\<rparr>"
  have ok: "(0 :: uint8) \<le> MaxShareVersion"
    by simp
  obtain m1 header
    where new: "NewBuilder shareLayout zeroMemory txNamespace 0 False = Inr (m1, header)"
    using NewBuilder_succeeds [OF ok] by blast
  let ?m = "store m1 0 30 [0, 0, 0, 44]"
  let ?b = "ImportRawShare header ?share"
  have fits: "len (rawShareData header) \<le> ShareSize shareLayout"
    using NewBuilder_len [OF new]
    by (simp add: txNamespace_def shareLayout_def ShareInfoBytes_def
        CompactShareReservedBytes_def)
  have fitsAll: "list_all (importFits shareLayout) ?ops"
    by (simp add: shareLayout_def)
  have compact: "isCompactShare ?b"
    using NewBuilder_Inr(5) [OF new] by (simp add: ImportRawShare_def txNamespace_def)
  have continuation: "\<not> isFirstShare ?b"
    using NewBuilder_Inr(4) [OF new] by (simp add: ImportRawShare_def)
  have region: "sliceRange (rawShareData ?b) (indexOfReservedBytes shareLayout ?b)
      (indexOfReservedBytes shareLayout ?b + CompactShareReservedBytes) = Some ?region"
    using continuation
    by (simp add: indexOfReservedBytes_continuation sliceRange_def cap_def
        CompactShareReservedBytes_def ImportRawShare_def)
  have "view ?m ?region = [0, 0, 0, 44]"
    by (simp add: view_def cells_store upt_conv_Cons)
  then have "ParseReservedBytes shareLayout (view ?m ?region) = Inr 44"
    by (simp add: ParseReservedBytes_def CompactShareReservedBytes_def shareLayout_def)
  with compact region have call: "MaybeWriteReservedBytes shareLayout ?m ?b = Some (None, ?m, ?b)"
    by (rule MaybeWriteReservedBytes_no_op) simp
  have "len (rawShareData ?b) \<le> ShareSize shareLayout"
    by (simp add: ImportRawShare_def shareLayout_def)
  then have "AddData shareLayout ?m ?b \<lparr>ptr = 5, off = 0, len = 600, spare = 0\<rparr> \<noteq> None"
    by (simp add: AddData_within)
  then obtain m' b leftover
    where add: "AddData shareLayout ?m ?b \<lparr>ptr = 5, off = 0, len = 600, spare = 0\<rparr>
      = Some (m', b, leftover)"
    by auto
  have run: "runOperations shareLayout m1 header ?ops = Some (m', b)"
    by (simp add: call add)
  from new fits fitsAll run
    AvailableBytes_never_negative
      [where c = shareLayout and b = b and ns = txNamespace and version = 0
         and first = False and header = header and ops = ?ops and m = m1 and m' = m'
         and ?m0.0 = zeroMemory and ?m1.0 = m1]
  have "0 \<le> AvailableBytes shareLayout b"
    by blast
  then show ?thesis
    by (simp only: new run sum.case prod.case option.case)
qed

text \<open>
  The claim as it was written fails: a Builder fresh from \<open>NewBuilder\<close> that imports a
  raw share of 513 bytes has \<open>AvailableBytes\<close> of \<open>-1\<close>.
\<close>

theorem AvailableBytes_never_negative_counterexample:
  "case NewBuilder shareLayout zeroMemory txNamespace 0 False of
     Inl err \<Rightarrow> False
   | Inr (m1, header) \<Rightarrow>
       (case runOperations shareLayout m1 header
               [OpImportRawShare \<lparr>ptr = 0, off = 0, len = 513, spare = 0\<rparr>] of
          None \<Rightarrow> False
        | Some (m', b) \<Rightarrow> AvailableBytes shareLayout b = - 1)"
proof -
  have ok: "(0 :: uint8) \<le> MaxShareVersion"
    by simp
  obtain m1 header
    where new: "NewBuilder shareLayout zeroMemory txNamespace 0 False = Inr (m1, header)"
    using NewBuilder_succeeds [OF ok] by blast
  let ?share = "\<lparr>ptr = 0, off = 0, len = 513, spare = 0\<rparr>"
  have run: "runOperations shareLayout m1 header [OpImportRawShare ?share]
      = Some (m1, ImportRawShare header ?share)"
    by simp
  have "AvailableBytes shareLayout (ImportRawShare header ?share) = - 1"
    by (simp add: ImportRawShare_def AvailableBytes_def shareLayout_def)
  then show ?thesis
    by (simp only: new run sum.case prod.case option.case)
qed

end
